theory Spec2Isabelle
  imports Complex_Main "HOL-Library.Word"
begin

unbundle bit_operations_syntax

section \<open>Data model\<close>

text \<open>
  The program validates a road alignment: a sequence of straights, clothoids and circular
  arcs. The Go source keeps the alignment as a slice of pointers to \<open>Element\<close> structs,
  one fresh struct per input row, and every stage of \<open>main\<close> mutates the structs in place.
  No two slice entries alias, so the slice is modelled as a list of records and a pointer
  into it as the index of the entry; \<open>nil\<close> is \<open>None\<close>.

  The repository holds two versions of the program. The later one, with clothoids, the
  nearest-radius search and the table export, is the one modelled; the earlier one has the
  same scan loop, inlined in its \<open>getNextRadius\<close>, and no test that a speed bucket has
  breakpoints.

  Go's \<open>int\<close> is modelled as \<open>int\<close>: every speed the program handles lies between 0 and
  130, far from the 64-bit range. Go's \<open>float64\<close> fields are modelled as exact reals, that is,
  the model covers finite lengths and radii and does not cover rounding. \<open>Flag\<close> is Go's
  \<open>uint\<close>, a 64-bit word.
\<close>

datatype ElementType = Straight | Clothoid | Radius

type_synonym Flag = "64 word"

record Element =
  Id' :: int
  Type :: ElementType
  Length :: real
  Radius' :: real
  Vp :: int
  MinLength :: real
  MaxLength :: real
  AMin :: real
  AMax :: real
  Errors :: Flag

definition EVpDiff :: Flag where
  "EVpDiff = push_bit 0 1"

definition EMinLength :: Flag where
  "EMinLength = push_bit 1 1"

definition EMaxLength :: Flag where
  "EMaxLength = push_bit 2 1"

definition MaxVp :: int where
  "MaxVp = 100"

definition MaxStraightVp :: int where
  "MaxStraightVp = 100"

text \<open>
  \<open>log.Fatalf\<close> ends the process; so does the run-time panic of a slice expression whose
  bounds are out of range. Both are values of \<open>fatal\<close>.
\<close>

datatype fatal =
    VpNotFound int
  | NoClothoidLength int
  | NoNearestRadius
  | SliceBoundsOutOfRange

section \<open>Lookup tables\<close>

definition straightVps :: "int \<rightharpoonup> real list" where
  "straightVps = map_of
     [(40, [30, 100, 180, 270, 380, 500]),
      (50, [35, 120, 210, 320, 440]),
      (60, [40, 140, 250, 370]),
      (70, [50, 160, 280]),
      (80, [60, 180]),
      (90, [70])]"

definition clothoidMinLengths :: "int \<rightharpoonup> real" where
  "clothoidMinLengths = map_of
     [(40, 15), (45, 20), (50, 20), (55, 30), (60, 30), (65, 39), (70, 39), (75, 44),
      (80, 44), (85, 50), (90, 50), (95, 56), (100, 56), (110, 61), (120, 67), (130, 72)]"

definition typeStringifications :: "ElementType \<rightharpoonup> string" where
  "typeStringifications = map_of
     [(Straight, ''Straight''), (Radius, ''Radius''), (Clothoid, ''Clothoid'')]"

definition determineRadiusVp :: "real \<Rightarrow> int" where
  "determineRadiusVp radius =
     (let radius = \<bar>radius\<bar> in
      if radius \<le> 30 then 40
      else if radius \<le> 40 then 45
      else if radius \<le> 50 then 50
      else if radius \<le> 60 then 55
      else if radius \<le> 80 then 60
      else if radius \<le> 100 then 65
      else if radius \<le> 130 then 70
      else if radius \<le> 160 then 75
      else if radius \<le> 200 then 80
      else if radius \<le> 250 then 85
      else if radius \<le> 300 then 90
      else if radius \<le> 350 then 95
      else if radius \<le> 430 then 100
      else if radius \<le> 530 then 110
      else if radius \<le> 670 then 120
      else 130)"

text \<open>Go's \<open>%\<close> on \<open>int\<close> truncates towards zero: the remainder has the sign of the dividend.\<close>

definition go_rem :: "int \<Rightarrow> int \<Rightarrow> int" where
  "go_rem a b = sgn a * (\<bar>a\<bar> mod \<bar>b\<bar>)"

text \<open>
  The loop of \<open>determineStraightVp\<close> over the breakpoints of one bucket: \<open>i\<close> is the index of
  the breakpoint at the head of the list. \<open>None\<close> is the source's \<open>found = false\<close>.
\<close>

fun straightLoop :: "real list \<Rightarrow> int \<Rightarrow> real \<Rightarrow> int option" where
  "straightLoop [] i length' = None"
| "straightLoop (minLength # vps) i length' =
     (if length' \<le> minLength then Some i else straightLoop vps (i + 1) length')"

definition determineStraightVp :: "int \<Rightarrow> real \<Rightarrow> fatal + int" where
  "determineStraightVp radiusVp length' =
     (let vpAddition = go_rem radiusVp 10;
          vp = radiusVp - vpAddition
      in case straightVps vp of
           None \<Rightarrow> Inl (VpNotFound vp)
         | Some vps \<Rightarrow>
             (case straightLoop vps 0 length' of
                Some i \<Rightarrow> Inr (vp + (10 * i + vpAddition))
              | None \<Rightarrow> Inr MaxStraightVp))"

definition determineMinClothoidLength :: "int \<Rightarrow> fatal + real" where
  "determineMinClothoidLength radiusVp =
     (case clothoidMinLengths radiusVp of
        None \<Rightarrow> Inl (NoClothoidLength radiusVp)
      | Some length' \<Rightarrow> Inr length')"

definition abs_go :: "int \<Rightarrow> int" where
  "abs_go a = (if a < 0 then - a else a)"

definition min_go :: "int \<Rightarrow> int \<Rightarrow> int" where
  "min_go a b = (if a < b then a else b)"

definition max_go :: "int \<Rightarrow> int \<Rightarrow> int" where
  "max_go a b = (if a > b then a else b)"

definition drivingSecondLength :: "int \<Rightarrow> int \<Rightarrow> real" where
  "drivingSecondLength vp seconds = real_of_int vp / 3.6 * real_of_int seconds"

section \<open>Neighbour locator\<close>

text \<open>
  The \<open>for\<close> loop of \<open>getDirectedNextRadius\<close>, entered with loop variable \<open>i\<close> and the
  distance counted so far. The source takes any \<open>int\<close> as increment, and with increment 0
  the loop need not end, so the loop is a partial function: \<open>None\<close> is a loop that never
  returns. The result is the pair of the source: the element found (its index) or \<open>nil\<close>,
  and the distance.
\<close>

partial_function (option) directedLoop ::
  "Element list \<Rightarrow> int \<Rightarrow> int \<Rightarrow> int \<Rightarrow> (nat option \<times> int) option" where
  "directedLoop elements increment i distance =
     (if i > 0 \<and> i < int (length elements) then
        (if Type (elements ! nat i) = Radius then Some (Some (nat i), distance + 1)
         else directedLoop elements increment (i + increment) (distance + 1))
      else Some (None, distance))"

definition getDirectedNextRadius ::
  "Element list \<Rightarrow> int \<Rightarrow> int \<Rightarrow> (nat option \<times> int) option" where
  "getDirectedNextRadius elements pos increment =
     directedLoop elements increment (pos + increment) 0"

definition getNextRadius :: "Element list \<Rightarrow> int \<Rightarrow> nat option option" where
  "getNextRadius elements pos = map_option fst (getDirectedNextRadius elements pos 1)"

definition getPreviousRadius :: "Element list \<Rightarrow> int \<Rightarrow> nat option option" where
  "getPreviousRadius elements pos = map_option fst (getDirectedNextRadius elements pos (- 1))"

definition getNearestRadius :: "Element list \<Rightarrow> int \<Rightarrow> (fatal + nat) option" where
  "getNearestRadius elements pos =
     (case getDirectedNextRadius elements pos (- 1) of
        None \<Rightarrow> None
      | Some (previous, previousDistance) \<Rightarrow>
          (case getDirectedNextRadius elements pos 1 of
             None \<Rightarrow> None
           | Some (next, nextDistance) \<Rightarrow>
               (case (previous, next) of
                  (None, None) \<Rightarrow> Some (Inl NoNearestRadius)
                | (Some p, None) \<Rightarrow> Some (Inr p)
                | (None, Some n) \<Rightarrow> Some (Inr n)
                | (Some p, Some n) \<Rightarrow>
                    if previousDistance < nextDistance then Some (Inr p) else Some (Inr n))))"

section \<open>The stages of main\<close>

text \<open>
  Every stage is a \<open>for ... range elements\<close> loop that mutates the elements in place, so a
  later iteration reads what an earlier one wrote. \<open>forEach\<close> runs a loop body over the
  indices in order, threading the element list; a fatal error ends the run, and a body that
  does not return makes the run not return (\<open>None\<close>).
\<close>

fun forEach ::
  "(Element list \<Rightarrow> nat \<Rightarrow> (fatal + Element list) option) \<Rightarrow> nat list \<Rightarrow> Element list \<Rightarrow>
   (fatal + Element list) option" where
  "forEach body [] elements = Some (Inr elements)"
| "forEach body (i # is) elements =
     (case body elements i of
        None \<Rightarrow> None
      | Some (Inl f) \<Rightarrow> Some (Inl f)
      | Some (Inr elements') \<Rightarrow> forEach body is elements')"

definition andThen ::
  "(fatal + Element list) option \<Rightarrow> (Element list \<Rightarrow> (fatal + Element list) option) \<Rightarrow>
   (fatal + Element list) option" where
  "andThen r stage =
     (case r of None \<Rightarrow> None | Some (Inl f) \<Rightarrow> Some (Inl f) | Some (Inr elements) \<Rightarrow> stage elements)"

text \<open>Stage 1: the speed of every Radius element and its clothoid bounds.\<close>

definition radiusStep :: "Element list \<Rightarrow> nat \<Rightarrow> (fatal + Element list) option" where
  "radiusStep elements i =
     (let e = elements ! i in
      if Type e = Radius then
        (let vp = min_go MaxVp (determineRadiusVp (Radius' e)) in
         case determineMinClothoidLength vp of
           Inl f \<Rightarrow> Some (Inl f)
         | Inr lClothMin \<Rightarrow>
             Some (Inr (elements[i := e\<lparr>Vp := vp,
                                       AMin := sqrt (\<bar>Radius' e\<bar> * lClothMin),
                                       AMax := sqrt (\<bar>Radius' e\<bar> * lClothMin * 2)\<rparr>])))
      else Some (Inr elements))"

definition radiusPass :: "Element list \<Rightarrow> (fatal + Element list) option" where
  "radiusPass elements = forEach radiusStep [0..<length elements] elements"

text \<open>Stage 2: the speed of every Straight element.\<close>

definition flankVp :: "Element list \<Rightarrow> nat option \<Rightarrow> nat option \<Rightarrow> int" where
  "flankVp elements p n =
     (let radiusVp = 0;
          radiusVp = (case p of Some r \<Rightarrow> max_go (Vp (elements ! r)) radiusVp | None \<Rightarrow> radiusVp);
          radiusVp = (case n of Some r \<Rightarrow> max_go (Vp (elements ! r)) radiusVp | None \<Rightarrow> radiusVp)
      in radiusVp)"

definition straightStep :: "Element list \<Rightarrow> nat \<Rightarrow> (fatal + Element list) option" where
  "straightStep elements i =
     (let e = elements ! i in
      if Type e = Straight then
        (case getPreviousRadius elements (int i) of
           None \<Rightarrow> None
         | Some p \<Rightarrow>
             (case getNextRadius elements (int i) of
                None \<Rightarrow> None
              | Some n \<Rightarrow>
                  (case determineStraightVp (flankVp elements p n) (Length e) of
                     Inl f \<Rightarrow> Some (Inl f)
                   | Inr vp \<Rightarrow> Some (Inr (elements[i := e\<lparr>Vp := vp\<rparr>])))))
      else Some (Inr elements))"

definition straightPass :: "Element list \<Rightarrow> (fatal + Element list) option" where
  "straightPass elements = forEach straightStep [0..<length elements] elements"

text \<open>Stage 3: the speed of every Clothoid element.\<close>

definition clothoidStep :: "Element list \<Rightarrow> nat \<Rightarrow> (fatal + Element list) option" where
  "clothoidStep elements i =
     (let e = elements ! i in
      if Type e = Clothoid then
        (case getNearestRadius elements (int i) of
           None \<Rightarrow> None
         | Some (Inl f) \<Rightarrow> Some (Inl f)
         | Some (Inr radius) \<Rightarrow> Some (Inr (elements[i := e\<lparr>Vp := Vp (elements ! radius)\<rparr>])))
      else Some (Inr elements))"

definition clothoidPass :: "Element list \<Rightarrow> (fatal + Element list) option" where
  "clothoidPass elements = forEach clothoidStep [0..<length elements] elements"

text \<open>
  Stage 4: the minimum (and, for clothoids, maximum) length of every element. The
  \<open>default\<close> branch of the source's \<open>switch\<close> cannot be reached: \<open>determineElementType\<close>
  yields one of the three kinds or ends the run.
\<close>

definition sameDirection :: "Element list \<Rightarrow> nat option \<Rightarrow> nat option \<Rightarrow> bool" where
  "sameDirection elements p n =
     (case (p, n) of
        (Some p, Some n) \<Rightarrow>
          (if Radius' (elements ! p) < 0 \<and> Radius' (elements ! n) < 0 then True
           else if Radius' (elements ! p) > 0 \<and> Radius' (elements ! n) > 0 then True
           else False)
      | _ \<Rightarrow> False)"

definition minLengthStep :: "Element list \<Rightarrow> nat \<Rightarrow> (fatal + Element list) option" where
  "minLengthStep elements i =
     (let e = elements ! i in
      case Type e of
        Radius \<Rightarrow> Some (Inr (elements[i := e\<lparr>MinLength := drivingSecondLength (Vp e) 1\<rparr>]))
      | Straight \<Rightarrow>
          (case getPreviousRadius elements (int i) of
             None \<Rightarrow> None
           | Some p \<Rightarrow>
               (case getNextRadius elements (int i) of
                  None \<Rightarrow> None
                | Some n \<Rightarrow>
                    Some (Inr (elements[i := e\<lparr>MinLength :=
                      (if sameDirection elements p n then drivingSecondLength (Vp e) 5
                       else drivingSecondLength (Vp e) 1)\<rparr>]))))
      | Clothoid \<Rightarrow>
          (case getNearestRadius elements (int i) of
             None \<Rightarrow> None
           | Some (Inl f) \<Rightarrow> Some (Inl f)
           | Some (Inr radius) \<Rightarrow>
               Some (Inr (elements[i := e\<lparr>MinLength := AMin (elements ! radius),
                                         MaxLength := AMax (elements ! radius)\<rparr>]))))"

definition minLengthPass :: "Element list \<Rightarrow> (fatal + Element list) option" where
  "minLengthPass elements = forEach minLengthStep [0..<length elements] elements"

text \<open>
  Stage 5: the speed difference of every adjacent pair. The loop ranges over
  \<open>elements[:len(elements)-1]\<close>, which panics on an empty slice.
\<close>

definition vpInvalid :: "int \<Rightarrow> int \<Rightarrow> bool" where
  "vpInvalid eVp nVp =
     (if eVp = 100 \<or> nVp = 100 then abs_go (eVp - nVp) \<ge> 20 else abs_go (eVp - nVp) > 20)"

definition vpDiffStep :: "Element list \<Rightarrow> nat \<Rightarrow> (fatal + Element list) option" where
  "vpDiffStep elements i =
     (let e = elements ! i;
          n = elements ! (i + 1)
      in if vpInvalid (Vp e) (Vp n) then
           Some (Inr (elements[i := e\<lparr>Errors := Errors e OR EVpDiff\<rparr>,
                               i + 1 := n\<lparr>Errors := Errors n OR EVpDiff\<rparr>]))
         else Some (Inr elements))"

definition vpDiffPass :: "Element list \<Rightarrow> (fatal + Element list) option" where
  "vpDiffPass elements =
     (if length elements = 0 then Some (Inl SliceBoundsOutOfRange)
      else forEach vpDiffStep [0..<length elements - 1] elements)"

text \<open>Stage 6: the length of every element against its bounds.\<close>

definition checkLength :: "Element \<Rightarrow> Element" where
  "checkLength e =
     (let e = (if Length e < MinLength e then e\<lparr>Errors := Errors e OR EMinLength\<rparr> else e);
          e = (if MaxLength e \<noteq> 0 \<and> Length e > MaxLength e
               then e\<lparr>Errors := Errors e OR EMaxLength\<rparr> else e)
      in e)"

definition lengthStep :: "Element list \<Rightarrow> nat \<Rightarrow> (fatal + Element list) option" where
  "lengthStep elements i = Some (Inr (elements[i := checkLength (elements ! i)]))"

definition lengthPass :: "Element list \<Rightarrow> (fatal + Element list) option" where
  "lengthPass elements = forEach lengthStep [0..<length elements] elements"

text \<open>The six stages in the order of \<open>main\<close>.\<close>

definition speedStages :: "Element list \<Rightarrow> (fatal + Element list) option" where
  "speedStages elements =
     andThen (andThen (radiusPass elements) straightPass) clothoidPass"

definition processElements :: "Element list \<Rightarrow> (fatal + Element list) option" where
  "processElements elements =
     andThen (andThen (andThen (speedStages elements) minLengthPass) vpDiffPass) lengthPass"

text \<open>
  \<open>readElement\<close> fills \<open>Id\<close>, \<open>Type\<close>, \<open>Length\<close> and \<open>Radius\<close> of a zero-initialised struct:
  the derived fields of every element that enters the stages are zero.
\<close>

definition newElement :: "int \<Rightarrow> ElementType \<Rightarrow> real \<Rightarrow> real \<Rightarrow> Element" where
  "newElement id' type' length' radius =
     \<lparr>Id' = id', Type = type', Length = length', Radius' = radius, Vp = 0, MinLength = 0,
      MaxLength = 0, AMin = 0, AMax = 0, Errors = 0\<rparr>"

section \<open>Report and mean speed\<close>

text \<open>\<open>strings.Join\<close>.\<close>

fun Join :: "string list \<Rightarrow> string \<Rightarrow> string" where
  "Join [] sep = []"
| "Join [s] sep = s"
| "Join (s # t # ss) sep = s @ sep @ Join (t # ss) sep"

definition stringifyErrors :: "Flag \<Rightarrow> string" where
  "stringifyErrors e =
     (let errorStrings = [];
          errorStrings = (if e AND EVpDiff \<noteq> 0 then errorStrings @ [''VpDiff'']
                          else errorStrings);
          errorStrings = (if e AND EMinLength \<noteq> 0 then errorStrings @ [''MinLength'']
                          else errorStrings)
      in Join errorStrings '', '')"

text \<open>
  A cell of the table is a string. The decimal rendering of numbers is not modelled: a cell
  made by \<open>strconv.Itoa\<close> or by \<open>fmt.Sprintf("%.2f", _)\<close> carries the number it renders.
\<close>

datatype cell = Text string | Itoa int | Fixed2 real

definition stringifyType :: "ElementType \<Rightarrow> string option" where
  "stringifyType t = typeStringifications t"

definition header :: "cell list" where
  "header = [Text ''Id'', Text ''Type'', Text ''Length'', Text ''Radius'', Text ''Vp'',
             Text ''MinLength'', Text ''AMin'', Text ''AMax'', Text ''Errors'']"

text \<open>
  The row of one element; \<open>None\<close> is the \<open>log.Fatalf\<close> of \<open>stringifyType\<close> on a kind
  without a name.
\<close>

definition tableRow :: "Element \<Rightarrow> cell list option" where
  "tableRow e =
     (case stringifyType (Type e) of
        None \<Rightarrow> None
      | Some t \<Rightarrow>
          Some [Itoa (Id' e), Text t, Fixed2 (Length e), Fixed2 (Radius' e), Itoa (Vp e),
                Fixed2 (MinLength e), Fixed2 (AMin e), Fixed2 (AMax e),
                Text (stringifyErrors (Errors e))])"

fun tableRows :: "Element list \<Rightarrow> cell list list option" where
  "tableRows [] = Some []"
| "tableRows (e # es) =
     (case tableRow e of
        None \<Rightarrow> None
      | Some row \<Rightarrow> (case tableRows es of None \<Rightarrow> None | Some rows \<Rightarrow> Some (row # rows)))"

definition createTable :: "Element list \<Rightarrow> cell list list option" where
  "createTable elements = map_option (\<lambda>rows. header # rows) (tableRows elements)"

text \<open>The table \<open>main\<close> prints: every element under \<open>-all\<close>, else the flagged ones.\<close>

definition reportTable :: "bool \<Rightarrow> Element list \<Rightarrow> cell list list option" where
  "reportTable printAll elements =
     (if printAll then createTable elements
      else createTable (filter (\<lambda>e. Errors e \<noteq> 0) elements))"

text \<open>
  The mean speed is the one place where a \<open>float64\<close> leaves the finite range on finite
  inputs: Go does not panic on a floating-point division by zero, the quotient is NaN or
  an infinity. The sums start at \<open>+0\<close> and a sum that cancels is \<open>+0\<close>, so the sign of the
  infinity is the sign of the dividend.
\<close>

datatype float64 = Finite real | NaN | PosInf | NegInf

definition float_div :: "real \<Rightarrow> real \<Rightarrow> float64" where
  "float_div a b =
     (if b \<noteq> 0 then Finite (a / b)
      else if a = 0 then NaN
      else if a > 0 then PosInf
      else NegInf)"

fun meanLoop :: "Element list \<Rightarrow> real \<Rightarrow> real \<Rightarrow> real \<times> real" where
  "meanLoop [] totalLength vpProduct = (totalLength, vpProduct)"
| "meanLoop (e # es) totalLength vpProduct =
     meanLoop es (totalLength + Length e) (vpProduct + Length e * real_of_int (Vp e))"

definition meanVp :: "Element list \<Rightarrow> float64" where
  "meanVp elements =
     (case meanLoop elements 0 0 of (totalLength, vpProduct) \<Rightarrow> float_div vpProduct totalLength)"

text \<open>The run of \<open>main\<close> from the parsed elements to the mean speed it prints last.\<close>

definition runMeanVp :: "Element list \<Rightarrow> (fatal + float64) option" where
  "runMeanVp elements =
     (case processElements elements of
        None \<Rightarrow> None
      | Some (Inl f) \<Rightarrow> Some (Inl f)
      | Some (Inr elements') \<Rightarrow> Some (Inr (meanVp elements')))"

section \<open>Frames\<close>

text \<open>
  \<open>keeps f\<close> relates two states of the element list in which every element has the same
  image under \<open>f\<close>.
\<close>

definition keeps :: "(Element \<Rightarrow> 'a) \<Rightarrow> Element list \<Rightarrow> Element list \<Rightarrow> bool" where
  "keeps f es es' = (map f es' = map f es)"

text \<open>
  \<open>radiusView\<close> is what the stages after the first keep of every element: its kind, its
  measured data, its clothoid bounds and, for a Radius element, its speed. \<open>lengthView\<close>
  adds the speed of every element, which the stages after the third keep.
\<close>

definition radiusView :: "Element \<Rightarrow> ElementType \<times> real \<times> real \<times> real \<times> real \<times> int" where
  "radiusView e =
     (Type e, Length e, Radius' e, AMin e, AMax e, if Type e = Radius then Vp e else 0)"

definition lengthView ::
  "Element \<Rightarrow> (ElementType \<times> real \<times> real \<times> real \<times> real \<times> int) \<times> int" where
  "lengthView e = (radiusView e, Vp e)"

definition baseView :: "Element \<Rightarrow> ElementType \<times> real \<times> real \<times> Flag" where
  "baseView e = (Type e, Length e, Radius' e, Errors e)"

definition straightVpView :: "Element \<Rightarrow> ElementType \<times> int" where
  "straightVpView e = (Type e, if Type e = Clothoid then 0 else Vp e)"

section \<open>Vocabulary of the specification\<close>

text \<open>
  The speed a neighbouring Radius element contributes to a Straight: its \<open>Vp\<close>, and 0 when
  the locator found no neighbour on that side.
\<close>

definition neighbourVp :: "Element list \<Rightarrow> nat option \<Rightarrow> int" where
  "neighbourVp es r = (case r of None \<Rightarrow> 0 | Some j \<Rightarrow> Vp (es ! j))"

text \<open>
  The capped speed of a neighbouring Radius element, from its radius: what stage 1 stores
  as its \<open>Vp\<close>; 0 when the locator found no neighbour on that side.
\<close>

definition neighbourSpeed :: "Element list \<Rightarrow> nat option \<Rightarrow> int" where
  "neighbourSpeed es r =
     (case r of None \<Rightarrow> 0 | Some j \<Rightarrow> min 100 (determineRadiusVp \<bar>Radius' (es ! j)\<bar>))"



text \<open>
  The rule for an adjacent pair in the words of the specification: with a speed of 100 on
  either side a difference of 20 or more is a violation, else a difference above 20.
\<close>

definition speedGapViolation :: "int \<Rightarrow> int \<Rightarrow> bool" where
  "speedGapViolation a b = (if a = 100 \<or> b = 100 then 20 \<le> \<bar>a - b\<bar> else 20 < \<bar>a - b\<bar>)"

text \<open>
  Element \<open>j\<close> belongs to a violating pair among the first \<open>m\<close> pairs: the loop invariant of
  stage 5.
\<close>

definition flagged :: "Element list \<Rightarrow> nat \<Rightarrow> nat \<Rightarrow> bool" where
  "flagged es m j =
     ((j < m \<and> vpInvalid (Vp (es ! j)) (Vp (es ! (j + 1)))) \<or>
      (0 < j \<and> j \<le> m \<and> vpInvalid (Vp (es ! (j - 1))) (Vp (es ! j))))"

section \<open>Sample alignments\<close>

text \<open>
  An alignment of nine elements that runs through all six stages, and the element list the
  stages leave. It holds a Straight between two curves of the same direction, a Clothoid at
  equal distance from two Radius elements, and Clothoids shorter than, within and longer than
  their bounds.
\<close>

definition example :: "Element list" where
  "example =
     [newElement 1 Straight 20 0,
      newElement 2 Radius 30 (- 40),
      newElement 3 Straight 95 0,
      newElement 4 Radius 10 (- 35),
      newElement 5 Clothoid 150 0,
      newElement 6 Radius 100 (- 300),
      newElement 7 Clothoid 200 0,
      newElement 8 Clothoid 100 0,
      newElement 9 Straight 95 0]"

definition example_result :: "Element list" where
  "example_result =
     [\<lparr>Id' = 1, Type = Straight, Length = 20, Radius' = 0, Vp = 45,
       MinLength = 25 / 2, MaxLength = 0, AMin = 0, AMax = 0, Errors = 0\<rparr>,
      \<lparr>Id' = 2, Type = Radius, Length = 30, Radius' = - 40, Vp = 45,
       MinLength = 25 / 2, MaxLength = 0, AMin = sqrt 800, AMax = 40, Errors = 0\<rparr>,
      \<lparr>Id' = 3, Type = Straight, Length = 95, Radius' = 0, Vp = 55,
       MinLength = 1375 / 18, MaxLength = 0, AMin = 0, AMax = 0, Errors = 0\<rparr>,
      \<lparr>Id' = 4, Type = Radius, Length = 10, Radius' = - 35, Vp = 45,
       MinLength = 25 / 2, MaxLength = 0, AMin = sqrt 700, AMax = sqrt 1400, Errors = 3\<rparr>,
      \<lparr>Id' = 5, Type = Clothoid, Length = 150, Radius' = 0, Vp = 90,
       MinLength = sqrt 15000, MaxLength = sqrt 30000, AMin = 0, AMax = 0, Errors = 1\<rparr>,
      \<lparr>Id' = 6, Type = Radius, Length = 100, Radius' = - 300, Vp = 90,
       MinLength = 25, MaxLength = 0, AMin = sqrt 15000, AMax = sqrt 30000, Errors = 0\<rparr>,
      \<lparr>Id' = 7, Type = Clothoid, Length = 200, Radius' = 0, Vp = 90,
       MinLength = sqrt 15000, MaxLength = sqrt 30000, AMin = 0, AMax = 0, Errors = 4\<rparr>,
      \<lparr>Id' = 8, Type = Clothoid, Length = 100, Radius' = 0, Vp = 90,
       MinLength = sqrt 15000, MaxLength = sqrt 30000, AMin = 0, AMax = 0, Errors = 2\<rparr>,
      \<lparr>Id' = 9, Type = Straight, Length = 95, Radius' = 0, Vp = 100,
       MinLength = 250 / 9, MaxLength = 0, AMin = 0, AMax = 0, Errors = 0\<rparr>]"

text \<open>A curve wider than 430 m between two clothoids.\<close>

definition wide_curve :: "Element list" where
  "wide_curve =
     [newElement 1 Clothoid 50 0, newElement 2 Radius 100 500, newElement 3 Clothoid 60 0]"

definition wide_curve_result :: "Element list" where
  "wide_curve_result =
     [\<lparr>Id' = 1, Type = Clothoid, Length = 50, Radius' = 0, Vp = 100,
       MinLength = sqrt 28000, MaxLength = sqrt 56000, AMin = 0, AMax = 0, Errors = 2\<rparr>,
      \<lparr>Id' = 2, Type = Radius, Length = 100, Radius' = 500, Vp = 100,
       MinLength = 250 / 9, MaxLength = 0, AMin = sqrt 28000, AMax = sqrt 56000, Errors = 0\<rparr>,
      \<lparr>Id' = 3, Type = Clothoid, Length = 60, Radius' = 0, Vp = 100,
       MinLength = sqrt 28000, MaxLength = sqrt 56000, AMin = 0, AMax = 0, Errors = 2\<rparr>]"

text \<open>Two curves with a Clothoid and a Straight between them.\<close>

definition two_curves :: "Element list" where
  "two_curves =
     [newElement 1 Straight 10 0, newElement 2 Radius 10 100, newElement 3 Clothoid 10 0,
      newElement 4 Straight 10 0, newElement 5 Radius 10 100]"

text \<open>A Straight after a curve of radius 400.\<close>

definition fatal_wide :: "Element list" where
  "fatal_wide =
     [newElement 1 Clothoid 50 0, newElement 2 Radius 50 (- 400), newElement 3 Straight 80 0]"

text \<open>
  A Straight between two curves of the same direction, the first curve at the head of the
  sequence; and the same with a first curve wide enough for the speed 100.
\<close>

definition head_curves :: "Element list" where
  "head_curves =
     [newElement 1 Radius 50 (- 200), newElement 2 Straight 80 0, newElement 3 Radius 50 (- 150)]"

definition head_curves_result :: "Element list" where
  "head_curves_result =
     [\<lparr>Id' = 1, Type = Radius, Length = 50, Radius' = - 200, Vp = 80,
       MinLength = 200 / 9, MaxLength = 0, AMin = sqrt 8800, AMax = sqrt 17600, Errors = 0\<rparr>,
      \<lparr>Id' = 2, Type = Straight, Length = 80, Radius' = 0, Vp = 85,
       MinLength = 425 / 18, MaxLength = 0, AMin = 0, AMax = 0, Errors = 0\<rparr>,
      \<lparr>Id' = 3, Type = Radius, Length = 50, Radius' = - 150, Vp = 75,
       MinLength = 125 / 6, MaxLength = 0, AMin = sqrt 6600, AMax = sqrt 13200, Errors = 0\<rparr>]"

definition head_wide :: "Element list" where
  "head_wide =
     [newElement 1 Radius 50 400, newElement 2 Straight 80 0, newElement 3 Radius 50 200]"

definition head_wide_result :: "Element list" where
  "head_wide_result =
     [\<lparr>Id' = 1, Type = Radius, Length = 50, Radius' = 400, Vp = 100,
       MinLength = 250 / 9, MaxLength = 0, AMin = sqrt 22400, AMax = sqrt 44800, Errors = 0\<rparr>,
      \<lparr>Id' = 2, Type = Straight, Length = 80, Radius' = 0, Vp = 90,
       MinLength = 25, MaxLength = 0, AMin = 0, AMax = 0, Errors = 0\<rparr>,
      \<lparr>Id' = 3, Type = Radius, Length = 50, Radius' = 200, Vp = 80,
       MinLength = 200 / 9, MaxLength = 0, AMin = sqrt 8800, AMax = sqrt 17600, Errors = 0\<rparr>]"



section \<open>Properties of the frames and of the stage loop\<close>

lemma keeps_refl: "keeps f es es"
  by (simp add: keeps_def)

lemma keeps_trans: "keeps f a b \<Longrightarrow> keeps f b c \<Longrightarrow> keeps f a c"
  by (simp add: keeps_def)

lemma keeps_length: "keeps f es es' \<Longrightarrow> length es' = length es"
  unfolding keeps_def by (rule map_eq_imp_length_eq)

lemma keeps_nth: "keeps f es es' \<Longrightarrow> i < length es \<Longrightarrow> f (es' ! i) = f (es ! i)"
  unfolding keeps_def by (metis length_map nth_map)

lemma keeps_weaken:
  assumes "keeps f es es'" and "\<And>a b. f a = f b \<Longrightarrow> g a = g b"
  shows "keeps g es es'"
proof -
  have len: "length es' = length es" using assms(1) by (rule keeps_length)
  have "\<And>i. i < length es \<Longrightarrow> g (es' ! i) = g (es ! i)"
    using assms keeps_nth by blast
  with len show ?thesis
    unfolding keeps_def by (simp add: list_eq_iff_nth_eq)
qed

lemma keeps_update:
  assumes "i < length es \<Longrightarrow> f x = f (es ! i)"
  shows "keeps f es (es[i := x])"
proof -
  have "f (es[i := x] ! j) = f (es ! j)" if "j < length es" for j
    using that assms by (cases "j = i") simp_all
  then show ?thesis by (simp add: keeps_def list_eq_iff_nth_eq)
qed

lemma forEach_append:
  "forEach body (xs @ ys) es =
     (case forEach body xs es of
        None \<Rightarrow> None
      | Some (Inl f) \<Rightarrow> Some (Inl f)
      | Some (Inr es') \<Rightarrow> forEach body ys es')"
  by (induction xs arbitrary: es) (auto split: option.splits sum.splits)

lemma forEach_keeps:
  assumes "forEach body is es = Some (Inr es')"
      and "\<And>es k r. body es k = Some (Inr r) \<Longrightarrow> keeps f es r"
  shows "keeps f es es'"
  using assms(1)
proof (induction "is" arbitrary: es)
  case Nil
  then show ?case by (simp add: keeps_refl)
next
  case (Cons k ks)
  then obtain r where r: "body es k = Some (Inr r)" "forEach body ks r = Some (Inr es')"
    by (auto split: option.splits sum.splits)
  from assms(2)[OF r(1)] Cons.IH[OF r(2)] show ?case by (rule keeps_trans)
qed

lemma forEach_untouched:
  assumes "forEach body is es = Some (Inr es')"
      and "\<And>es k r j. body es k = Some (Inr r) \<Longrightarrow> j \<noteq> k \<Longrightarrow> r ! j = es ! j"
      and "i \<notin> set is"
  shows "es' ! i = es ! i"
  using assms(1,3)
proof (induction "is" arbitrary: es)
  case Nil
  then show ?case by simp
next
  case (Cons k ks)
  then obtain r where r: "body es k = Some (Inr r)" "forEach body ks r = Some (Inr es')"
    by (auto split: option.splits sum.splits)
  from Cons.prems(2) have "i \<noteq> k" "i \<notin> set ks" by auto
  with assms(2)[OF r(1)] Cons.IH[OF r(2)] show ?case by simp
qed

lemma forEach_elem:
  assumes "forEach body is es = Some (Inr es')"
      and fr: "\<And>es k r. body es k = Some (Inr r) \<Longrightarrow> keeps f es r"
      and loc: "\<And>es k r j. body es k = Some (Inr r) \<Longrightarrow> j \<noteq> k \<Longrightarrow> r ! j = es ! j"
      and "distinct is" and "i \<in> set is"
  shows "\<exists>mid r. keeps f es mid \<and> mid ! i = es ! i \<and> body mid i = Some (Inr r) \<and>
           es' ! i = r ! i \<and> keeps f r es'"
  using assms(1,4,5)
proof (induction "is" arbitrary: es)
  case Nil
  then show ?case by simp
next
  case (Cons k ks)
  then obtain r where r: "body es k = Some (Inr r)" "forEach body ks r = Some (Inr es')"
    by (auto split: option.splits sum.splits)
  show ?case
  proof (cases "i = k")
    case True
    with Cons.prems(2) have "i \<notin> set ks" by simp
    with r(2) loc have "es' ! i = r ! i" by (rule forEach_untouched)
    moreover have "keeps f r es'" using r(2) fr by (rule forEach_keeps)
    ultimately show ?thesis using r(1) True keeps_refl by blast
  next
    case False
    with Cons.prems have "distinct ks" "i \<in> set ks" by auto
    from Cons.IH[OF r(2) this] obtain mid r' where
      m: "keeps f r mid" "mid ! i = r ! i" "body mid i = Some (Inr r')" "es' ! i = r' ! i"
         "keeps f r' es'"
      by blast
    from fr[OF r(1)] m(1) have "keeps f es mid" by (rule keeps_trans)
    moreover from loc[OF r(1) False] m(2) have "mid ! i = es ! i" by simp
    ultimately show ?thesis using m by blast
  qed
qed

lemma forEach_total:
  assumes "\<And>es k. \<exists>r. body es k = Some r"
  shows "\<exists>r. forEach body is es = Some r"
proof (induction "is" arbitrary: es)
  case Nil
  then show ?case by simp
next
  case (Cons k ks)
  from assms obtain r where "body es k = Some r" by blast
  with Cons.IH show ?case by (cases r) auto
qed

section \<open>Properties of the directed scan\<close>

text \<open>With increment 1 or -1 the scan returns.\<close>

lemma directedLoop_fwd_total:
  "\<exists>r. directedLoop es 1 i d = Some r"
proof (induction "nat (int (length es) - i)" arbitrary: i d rule: less_induct)
  case less
  show ?case
  proof (cases "i > 0 \<and> i < int (length es) \<and> Type (es ! nat i) \<noteq> Radius")
    case True
    then have "nat (int (length es) - (i + 1)) < nat (int (length es) - i)" by linarith
    from less[OF this, of "d + 1"] True show ?thesis
      by (subst directedLoop.simps) simp
  next
    case False
    then show ?thesis by (subst directedLoop.simps) auto
  qed
qed

lemma directedLoop_bwd_total:
  "\<exists>r. directedLoop es (- 1) i d = Some r"
proof (induction "nat i" arbitrary: i d rule: less_induct)
  case less
  show ?case
  proof (cases "i > 0 \<and> i < int (length es) \<and> Type (es ! nat i) \<noteq> Radius")
    case True
    then have "nat (i + - 1) < nat i" by linarith
    from less[OF this, of "d + 1"] True show ?thesis
      by (subst directedLoop.simps) simp
  next
    case False
    then show ?thesis by (subst directedLoop.simps) auto
  qed
qed

text \<open>
  A hit of a returning scan, for any increment: a Radius element at an index from 1 on,
  at the reported number of steps from the start.
\<close>

lemma directedLoop_hit:
  assumes "directedLoop es inc i d = Some res"
  shows "d \<le> snd res \<and>
         (\<forall>j. fst res = Some j \<longrightarrow>
            d < snd res \<and> int j = i + inc * (snd res - d - 1) \<and> 0 < j \<and> j < length es \<and>
            Type (es ! j) = Radius)"
proof (rule directedLoop.raw_induct[where P = "\<lambda>es inc i d res. d \<le> snd res \<and>
         (\<forall>j. fst res = Some j \<longrightarrow>
            d < snd res \<and> int j = i + inc * (snd res - d - 1) \<and> 0 < j \<and> j < length es \<and>
            Type (es ! j) = Radius)", OF _ assms])
  fix f es inc i d res
  assume IH: "\<And>es inc i d res. f es inc i d = Some res \<Longrightarrow> d \<le> snd res \<and>
         (\<forall>j. fst res = Some j \<longrightarrow>
            d < snd res \<and> int j = i + inc * (snd res - d - 1) \<and> 0 < j \<and> j < length es \<and>
            Type (es ! j) = Radius)"
    and body: "(if 0 < i \<and> i < int (length es)
      then if Type (es ! nat i) = Radius then Some (Some (nat i), d + 1)
           else f es inc (i + inc) (d + 1)
      else Some (None, d)) = Some res"
  show "d \<le> snd res \<and>
         (\<forall>j. fst res = Some j \<longrightarrow>
            d < snd res \<and> int j = i + inc * (snd res - d - 1) \<and> 0 < j \<and> j < length es \<and>
            Type (es ! j) = Radius)"
  proof (cases "i > 0 \<and> i < int (length es)")
    case False
    with body show ?thesis by auto
  next
    case inb: True
    show ?thesis
    proof (cases "Type (es ! nat i) = Radius")
      case True
      with inb body show ?thesis by auto
    next
      case False
      with inb body have "f es inc (i + inc) (d + 1) = Some res" by simp
      from IH[OF this] show ?thesis by (auto simp: algebra_simps)
    qed
  qed
qed


text \<open>With increment 1 or -1 the scan depends on the kinds of the elements only.\<close>

lemma directedLoop_fwd_cong:
  assumes "map Type es' = map Type es"
  shows "directedLoop es' 1 i d = directedLoop es 1 i d"
proof -
  have len: "length es' = length es" using assms by (rule map_eq_imp_length_eq)
  have ty: "Type (es' ! j) = Type (es ! j)" if "j < length es" for j
    using that assms len by (metis nth_map)
  show ?thesis
  proof (induction "nat (int (length es) - i)" arbitrary: i d rule: less_induct)
    case less
    show ?case
    proof (cases "i > 0 \<and> i < int (length es) \<and> Type (es ! nat i) \<noteq> Radius")
      case True
      then have "nat (int (length es) - (i + 1)) < nat (int (length es) - i)" by linarith
      moreover from True have "nat i < length es" by linarith
      then have "Type (es' ! nat i) = Type (es ! nat i)" by (rule ty)
      ultimately show ?thesis using less[of "i + 1" "d + 1"] less[of "i + - 1" "d + 1"] True len
        by (subst (1 2) directedLoop.simps) simp
    next
      case False
      have "Type (es' ! nat i) = Type (es ! nat i)" if "i > 0 \<and> i < int (length es)"
      proof -
        from that have "nat i < length es" by linarith
        then show ?thesis by (rule ty)
      qed
      with False len show ?thesis
        by (subst (1 2) directedLoop.simps) auto
    qed
  qed
qed

lemma directedLoop_bwd_cong:
  assumes "map Type es' = map Type es"
  shows "directedLoop es' (- 1) i d = directedLoop es (- 1) i d"
proof -
  have len: "length es' = length es" using assms by (rule map_eq_imp_length_eq)
  have ty: "Type (es' ! j) = Type (es ! j)" if "j < length es" for j
    using that assms len by (metis nth_map)
  show ?thesis
  proof (induction "nat i" arbitrary: i d rule: less_induct)
    case less
    show ?case
    proof (cases "i > 0 \<and> i < int (length es) \<and> Type (es ! nat i) \<noteq> Radius")
      case True
      then have "nat (i + - 1) < nat i" by linarith
      moreover from True have "nat i < length es" by linarith
      then have "Type (es' ! nat i) = Type (es ! nat i)" by (rule ty)
      ultimately show ?thesis using less[of "i + 1" "d + 1"] less[of "i + - 1" "d + 1"] True len
        by (subst (1 2) directedLoop.simps) simp
    next
      case False
      have "Type (es' ! nat i) = Type (es ! nat i)" if "i > 0 \<and> i < int (length es)"
      proof -
        from that have "nat i < length es" by linarith
        then show ?thesis by (rule ty)
      qed
      with False len show ?thesis
        by (subst (1 2) directedLoop.simps) auto
    qed
  qed
qed

lemma getDirectedNextRadius_total:
  "inc = 1 \<or> inc = - 1 \<Longrightarrow> \<exists>r d. getDirectedNextRadius es pos inc = Some (r, d)"
  unfolding getDirectedNextRadius_def
  using directedLoop_fwd_total[of es "pos + 1" 0] directedLoop_bwd_total[of es "pos + - 1" 0]
  by auto

lemma getNextRadius_total: "\<exists>n. getNextRadius es pos = Some n"
  using getDirectedNextRadius_total[of 1 es pos] by (auto simp: getNextRadius_def)

lemma getPreviousRadius_total: "\<exists>p. getPreviousRadius es pos = Some p"
  using getDirectedNextRadius_total[of "- 1" es pos] by (auto simp: getPreviousRadius_def)

lemma getNearestRadius_total: "\<exists>r. getNearestRadius es pos = Some r"
  using getDirectedNextRadius_total[of 1 es pos] getDirectedNextRadius_total[of "- 1" es pos]
  by (auto simp: getNearestRadius_def split: option.splits prod.splits)

lemma getDirectedNextRadius_cong:
  "map Type es' = map Type es \<Longrightarrow> inc = 1 \<or> inc = - 1 \<Longrightarrow>
   getDirectedNextRadius es' pos inc = getDirectedNextRadius es pos inc"
  unfolding getDirectedNextRadius_def
  using directedLoop_fwd_cong[of es' es "pos + 1" 0] directedLoop_bwd_cong[of es' es "pos + - 1" 0]
  by auto

lemma getNextRadius_cong:
  "map Type es' = map Type es \<Longrightarrow> getNextRadius es' pos = getNextRadius es pos"
  using getDirectedNextRadius_cong[of es' es 1 pos] by (simp add: getNextRadius_def)

lemma getPreviousRadius_cong:
  "map Type es' = map Type es \<Longrightarrow> getPreviousRadius es' pos = getPreviousRadius es pos"
  using getDirectedNextRadius_cong[of es' es "- 1" pos] by (simp add: getPreviousRadius_def)


lemma getDirectedNextRadius_hit:
  assumes "getDirectedNextRadius es pos inc = Some (Some j, d)"
  shows "0 < d \<and> int j = pos + inc * d \<and> 0 < j \<and> j < length es \<and> Type (es ! j) = Radius"
  using directedLoop_hit[OF assms[unfolded getDirectedNextRadius_def]]
  by (auto simp: algebra_simps)


lemma getNextRadius_hit:
  "getNextRadius es pos = Some (Some j) \<Longrightarrow> j < length es \<and> Type (es ! j) = Radius"
  by (auto simp: getNextRadius_def dest: getDirectedNextRadius_hit)

lemma getPreviousRadius_hit:
  "getPreviousRadius es pos = Some (Some j) \<Longrightarrow> j < length es \<and> Type (es ! j) = Radius"
  by (auto simp: getPreviousRadius_def dest: getDirectedNextRadius_hit)


section \<open>The scans against the sequence itself\<close>






section \<open>What one iteration of a stage touches\<close>

lemma radiusStep_local:
  "radiusStep es k = Some (Inr r) \<Longrightarrow> j \<noteq> k \<Longrightarrow> r ! j = es ! j"
  by (auto simp: radiusStep_def Let_def split: if_splits sum.splits)

lemma radiusStep_keeps:
  assumes g: "\<And>e v a b. Type e = Radius \<Longrightarrow> g (e\<lparr>Vp := v, AMin := a, AMax := b\<rparr>) = g e"
      and "radiusStep es k = Some (Inr r)"
  shows "keeps g es r"
  using assms(2)
  by (auto simp: radiusStep_def Let_def g keeps_refl split: if_splits sum.splits
           intro!: keeps_update)

lemma straightStep_local:
  "straightStep es k = Some (Inr r) \<Longrightarrow> j \<noteq> k \<Longrightarrow> r ! j = es ! j"
  by (auto simp: straightStep_def Let_def split: if_splits sum.splits option.splits)

lemma straightStep_keeps:
  assumes g: "\<And>e v. Type e = Straight \<Longrightarrow> g (e\<lparr>Vp := v\<rparr>) = g e"
      and "straightStep es k = Some (Inr r)"
  shows "keeps g es r"
  using assms(2)
  by (auto simp: straightStep_def Let_def g keeps_refl split: if_splits sum.splits option.splits
           intro!: keeps_update)


lemma clothoidStep_keeps:
  assumes g: "\<And>e v. Type e = Clothoid \<Longrightarrow> g (e\<lparr>Vp := v\<rparr>) = g e"
      and "clothoidStep es k = Some (Inr r)"
  shows "keeps g es r"
  using assms(2)
  by (auto simp: clothoidStep_def Let_def g keeps_refl split: if_splits sum.splits option.splits
           intro!: keeps_update)

lemma minLengthStep_local:
  "minLengthStep es k = Some (Inr r) \<Longrightarrow> j \<noteq> k \<Longrightarrow> r ! j = es ! j"
  by (auto simp: minLengthStep_def Let_def
           split: if_splits sum.splits option.splits ElementType.splits)

lemma minLengthStep_keeps:
  assumes g: "\<And>e a b. g (e\<lparr>MinLength := a, MaxLength := b\<rparr>) = g e"
             "\<And>e a. g (e\<lparr>MinLength := a\<rparr>) = g e"
      and "minLengthStep es k = Some (Inr r)"
  shows "keeps g es r"
  using assms(3)
  by (auto simp: minLengthStep_def Let_def g keeps_refl
           split: if_splits sum.splits option.splits ElementType.splits
           intro!: keeps_update)

lemma lengthStep_local:
  "lengthStep es k = Some (Inr r) \<Longrightarrow> j \<noteq> k \<Longrightarrow> r ! j = es ! j"
  by (auto simp: lengthStep_def)

lemma lengthStep_keeps:
  assumes g: "\<And>e. g (checkLength e) = g e"
      and "lengthStep es k = Some (Inr r)"
  shows "keeps g es r"
  using assms(2) by (auto simp: lengthStep_def g intro!: keeps_update)

lemma vpDiffStep_keeps:
  assumes g: "\<And>e. g (e\<lparr>Errors := Errors e OR EVpDiff\<rparr>) = g e"
      and "vpDiffStep es k = Some (Inr r)"
  shows "keeps g es r"
proof (cases "vpInvalid (Vp (es ! k)) (Vp (es ! (k + 1)))")
  case False
  with assms(2) show ?thesis by (simp add: vpDiffStep_def Let_def keeps_refl)
next
  case True
  let ?a = "es[k := (es ! k)\<lparr>Errors := Errors (es ! k) OR EVpDiff\<rparr>]"
  from True assms(2)
  have r: "r = ?a[k + 1 := (es ! (k + 1))\<lparr>Errors := Errors (es ! (k + 1)) OR EVpDiff\<rparr>]"
    by (simp add: vpDiffStep_def Let_def)
  have "keeps g es ?a" by (rule keeps_update) (simp add: g)
  moreover have "keeps g ?a r" unfolding r by (rule keeps_update) (simp add: g)
  ultimately show ?thesis by (rule keeps_trans)
qed

section \<open>What a stage keeps, and what it leaves at one element\<close>

lemma radiusPass_keeps:
  assumes "\<And>e v a b. Type e = Radius \<Longrightarrow> g (e\<lparr>Vp := v, AMin := a, AMax := b\<rparr>) = g e"
      and "radiusPass es = Some (Inr es')"
  shows "keeps g es es'"
  using assms(2) unfolding radiusPass_def
  by (rule forEach_keeps) (rule radiusStep_keeps[OF assms(1)])

lemma straightPass_keeps:
  assumes "\<And>e v. Type e = Straight \<Longrightarrow> g (e\<lparr>Vp := v\<rparr>) = g e"
      and "straightPass es = Some (Inr es')"
  shows "keeps g es es'"
  using assms(2) unfolding straightPass_def
  by (rule forEach_keeps) (rule straightStep_keeps[OF assms(1)])

lemma clothoidPass_keeps:
  assumes "\<And>e v. Type e = Clothoid \<Longrightarrow> g (e\<lparr>Vp := v\<rparr>) = g e"
      and "clothoidPass es = Some (Inr es')"
  shows "keeps g es es'"
  using assms(2) unfolding clothoidPass_def
  by (rule forEach_keeps) (rule clothoidStep_keeps[OF assms(1)])

lemma minLengthPass_keeps:
  assumes "\<And>e a b. g (e\<lparr>MinLength := a, MaxLength := b\<rparr>) = g e"
          "\<And>e a. g (e\<lparr>MinLength := a\<rparr>) = g e"
      and "minLengthPass es = Some (Inr es')"
  shows "keeps g es es'"
  using assms(3) unfolding minLengthPass_def
  by (rule forEach_keeps) (rule minLengthStep_keeps[OF assms(1,2)])

lemma vpDiffPass_keeps:
  assumes "\<And>e. g (e\<lparr>Errors := Errors e OR EVpDiff\<rparr>) = g e"
      and "vpDiffPass es = Some (Inr es')"
  shows "keeps g es es'"
proof (rule forEach_keeps)
  from assms(2) show "forEach vpDiffStep [0..<length es - 1] es = Some (Inr es')"
    by (simp add: vpDiffPass_def split: if_splits)
  fix es k r
  assume "vpDiffStep es k = Some (Inr r)"
  with assms(1) show "keeps g es r" by (rule vpDiffStep_keeps)
qed

lemma lengthPass_keeps:
  assumes "\<And>e. g (checkLength e) = g e"
      and "lengthPass es = Some (Inr es')"
  shows "keeps g es es'"
proof (rule forEach_keeps)
  from assms(2) show "forEach lengthStep [0..<length es] es = Some (Inr es')"
    by (simp add: lengthPass_def)
  fix es k r
  assume "lengthStep es k = Some (Inr r)"
  with assms(1) show "keeps g es r" by (rule lengthStep_keeps)
qed

lemma andThen_Inr:
  "andThen r stage = Some (Inr es') \<Longrightarrow> \<exists>mid. r = Some (Inr mid) \<and> stage mid = Some (Inr es')"
  by (auto simp: andThen_def split: option.splits sum.splits)

lemma processElements_stages:
  assumes "processElements es = Some (Inr fin)"
  shows "\<exists>e1 e2 e3 e4 e5.
           radiusPass es = Some (Inr e1) \<and> straightPass e1 = Some (Inr e2) \<and>
           clothoidPass e2 = Some (Inr e3) \<and> minLengthPass e3 = Some (Inr e4) \<and>
           vpDiffPass e4 = Some (Inr e5) \<and> lengthPass e5 = Some (Inr fin)"
proof -
  from assms obtain e5 where
    a5: "andThen (andThen (speedStages es) minLengthPass) vpDiffPass = Some (Inr e5)"
    and f: "lengthPass e5 = Some (Inr fin)"
    unfolding processElements_def by (blast dest: andThen_Inr)
  from a5 obtain e4 where a4: "andThen (speedStages es) minLengthPass = Some (Inr e4)"
    and f5: "vpDiffPass e4 = Some (Inr e5)" by (blast dest: andThen_Inr)
  from a4 obtain e3 where a3: "speedStages es = Some (Inr e3)"
    and f4: "minLengthPass e3 = Some (Inr e4)" by (blast dest: andThen_Inr)
  from a3 obtain e2 where a2: "andThen (radiusPass es) straightPass = Some (Inr e2)"
    and f3: "clothoidPass e2 = Some (Inr e3)"
    unfolding speedStages_def by (blast dest: andThen_Inr)
  from a2 obtain e1 where "radiusPass es = Some (Inr e1)"
    and f2: "straightPass e1 = Some (Inr e2)" by (blast dest: andThen_Inr)
  with f f5 f4 f3 show ?thesis by blast
qed

lemma checkLength_fields:
  "Type (checkLength e) = Type e" "Length (checkLength e) = Length e"
  "Radius' (checkLength e) = Radius' e" "Vp (checkLength e) = Vp e"
  "MinLength (checkLength e) = MinLength e" "MaxLength (checkLength e) = MaxLength e"
  "AMin (checkLength e) = AMin e" "AMax (checkLength e) = AMax e"
  by (simp_all add: checkLength_def Let_def)

lemma radiusView_after_radiusPass:
  assumes "straightPass e1 = Some (Inr e2)" "clothoidPass e2 = Some (Inr e3)"
          "minLengthPass e3 = Some (Inr e4)" "vpDiffPass e4 = Some (Inr e5)"
          "lengthPass e5 = Some (Inr fin)"
  shows "keeps radiusView e1 e2" "keeps radiusView e2 e3" "keeps radiusView e3 e4"
        "keeps radiusView e4 e5" "keeps radiusView e5 fin"
proof -
  show "keeps radiusView e1 e2"
    by (rule straightPass_keeps[OF _ assms(1)]) (simp add: radiusView_def)
  show "keeps radiusView e2 e3"
    by (rule clothoidPass_keeps[OF _ assms(2)]) (simp add: radiusView_def)
  show "keeps radiusView e3 e4"
    by (rule minLengthPass_keeps[OF _ _ assms(3)]) (simp_all add: radiusView_def)
  show "keeps radiusView e4 e5"
    by (rule vpDiffPass_keeps[OF _ assms(4)]) (simp add: radiusView_def)
  show "keeps radiusView e5 fin"
    by (rule lengthPass_keeps[OF _ assms(5)]) (simp add: radiusView_def checkLength_fields)
qed

lemma forEach_upt_elem:
  assumes "forEach body [0..<length es] es = Some (Inr es')"
      and "\<And>es k r. body es k = Some (Inr r) \<Longrightarrow> keeps f es r"
      and "\<And>es k r j. body es k = Some (Inr r) \<Longrightarrow> j \<noteq> k \<Longrightarrow> r ! j = es ! j"
      and "i < length es"
  shows "\<exists>mid r. keeps f es mid \<and> mid ! i = es ! i \<and> body mid i = Some (Inr r) \<and>
           es' ! i = r ! i \<and> keeps f r es'"
proof (rule forEach_elem)
  show "forEach body [0..<length es] es = Some (Inr es')" by fact
  show "distinct [0..<length es]" by simp
  from assms(4) show "i \<in> set [0..<length es]" by simp
qed (fact assms(2), fact assms(3))

lemma radiusPass_at:
  assumes "radiusPass es = Some (Inr es')" "i < length es" "Type (es ! i) = Radius"
  shows "\<exists>l. determineMinClothoidLength (min_go MaxVp (determineRadiusVp (Radius' (es ! i))))
              = Inr l \<and>
             es' ! i = (es ! i)\<lparr>Vp := min_go MaxVp (determineRadiusVp (Radius' (es ! i))),
                                AMin := sqrt (\<bar>Radius' (es ! i)\<bar> * l),
                                AMax := sqrt (\<bar>Radius' (es ! i)\<bar> * l * 2)\<rparr>"
proof -
  have "\<exists>mid r. keeps (\<lambda>e. ()) es mid \<and> mid ! i = es ! i \<and> radiusStep mid i = Some (Inr r) \<and>
           es' ! i = r ! i \<and> keeps (\<lambda>e. ()) r es'"
  proof (rule forEach_upt_elem)
    from assms(1) show "forEach radiusStep [0..<length es] es = Some (Inr es')"
      by (simp add: radiusPass_def)
    show "i < length es" by fact
  next
    fix es k r assume "radiusStep es k = Some (Inr r)"
    then show "keeps (\<lambda>e. ()) es r" by (rule radiusStep_keeps[rotated]) simp
  qed (rule radiusStep_local)
  then obtain mid r where m: "mid ! i = es ! i" "radiusStep mid i = Some (Inr r)"
    "es' ! i = r ! i" "length mid = length es"
    by (auto dest: keeps_length)
  from m(2) assms(2,3) m(1,4) have
    "\<exists>l. determineMinClothoidLength (min_go MaxVp (determineRadiusVp (Radius' (es ! i))))
              = Inr l \<and>
         r ! i = (es ! i)\<lparr>Vp := min_go MaxVp (determineRadiusVp (Radius' (es ! i))),
                                AMin := sqrt (\<bar>Radius' (es ! i)\<bar> * l),
                                AMax := sqrt (\<bar>Radius' (es ! i)\<bar> * l * 2)\<rparr>"
    by (auto simp: radiusStep_def Let_def split: sum.splits)
  with m(3) show ?thesis by simp
qed

lemma flankVp_cong:
  assumes k: "keeps radiusView a b"
      and p: "getPreviousRadius a pos = Some p" and n: "getNextRadius a pos = Some n"
  shows "flankVp b p n = flankVp a p n"
proof -
  have vp: "Vp (b ! j) = Vp (a ! j)" if "j < length a" "Type (a ! j) = Radius" for j
    using keeps_nth[OF k that(1)] that(2) by (auto simp: radiusView_def)
  have "Vp (b ! j) = Vp (a ! j)" if "p = Some j" for j
    using getPreviousRadius_hit[of a pos j] p that vp by simp
  moreover have "Vp (b ! j) = Vp (a ! j)" if "n = Some j" for j
    using getNextRadius_hit[of a pos j] n that vp by simp
  ultimately show ?thesis
    by (simp add: flankVp_def split: option.splits)
qed

lemma keeps_radiusView_Type: "keeps radiusView a b \<Longrightarrow> map Type b = map Type a"
proof -
  assume "keeps radiusView a b"
  then have "keeps Type a b" by (rule keeps_weaken) (simp add: radiusView_def)
  then show ?thesis by (simp add: keeps_def)
qed

lemma straightPass_at:
  assumes "straightPass es = Some (Inr es')" "i < length es" "Type (es ! i) = Straight"
  shows "\<exists>p n v. getPreviousRadius es (int i) = Some p \<and> getNextRadius es (int i) = Some n \<and>
           determineStraightVp (flankVp es p n) (Length (es ! i)) = Inr v \<and> Vp (es' ! i) = v"
proof -
  have "\<exists>mid r. keeps radiusView es mid \<and> mid ! i = es ! i \<and>
           straightStep mid i = Some (Inr r) \<and> es' ! i = r ! i \<and> keeps radiusView r es'"
  proof (rule forEach_upt_elem)
    from assms(1) show "forEach straightStep [0..<length es] es = Some (Inr es')"
      by (simp add: straightPass_def)
    show "i < length es" by fact
  next
    fix es k r assume "straightStep es k = Some (Inr r)"
    then show "keeps radiusView es r"
      by (rule straightStep_keeps[rotated]) (simp add: radiusView_def)
  qed (rule straightStep_local)
  then obtain mid r where m: "keeps radiusView es mid" "mid ! i = es ! i"
    "straightStep mid i = Some (Inr r)" "es' ! i = r ! i"
    by blast
  from keeps_length[OF m(1)] assms(2) have len: "i < length mid" by simp
  from m(3) assms(3) m(2) len obtain p n v where
    s: "getPreviousRadius mid (int i) = Some p" "getNextRadius mid (int i) = Some n"
       "determineStraightVp (flankVp mid p n) (Length (es ! i)) = Inr v" "Vp (r ! i) = v"
    by (auto simp: straightStep_def Let_def split: option.splits sum.splits)
  have ty: "map Type mid = map Type es" using m(1) by (rule keeps_radiusView_Type)
  from s(1) have p: "getPreviousRadius es (int i) = Some p"
    by (simp add: getPreviousRadius_cong[OF ty])
  from s(2) have n: "getNextRadius es (int i) = Some n"
    by (simp add: getNextRadius_cong[OF ty])
  from flankVp_cong[OF m(1) p n] s(3) m(4) s(4) p n show ?thesis by simp
qed

lemma keeps_radiusView_hit:
  assumes "keeps radiusView a b" "j < length a" "Type (a ! j) = Radius"
  shows "Vp (b ! j) = Vp (a ! j)" "AMin (b ! j) = AMin (a ! j)" "AMax (b ! j) = AMax (a ! j)"
        "Radius' (b ! j) = Radius' (a ! j)"
  using keeps_nth[OF assms(1,2)] assms(3) by (auto simp: radiusView_def)

lemma keeps_radiusView_nth:
  assumes "keeps radiusView a b" "j < length a"
  shows "Type (b ! j) = Type (a ! j)" "Length (b ! j) = Length (a ! j)"
        "Radius' (b ! j) = Radius' (a ! j)"
  using keeps_nth[OF assms(1,2)] by (auto simp: radiusView_def)


lemma minLengthPass_mid:
  assumes "minLengthPass es = Some (Inr es')" "i < length es"
  shows "\<exists>mid r. keeps lengthView es mid \<and> mid ! i = es ! i \<and>
           minLengthStep mid i = Some (Inr r) \<and> es' ! i = r ! i"
proof -
  have "\<exists>mid r. keeps lengthView es mid \<and> mid ! i = es ! i \<and>
           minLengthStep mid i = Some (Inr r) \<and> es' ! i = r ! i \<and> keeps lengthView r es'"
  proof (rule forEach_upt_elem)
    from assms(1) show "forEach minLengthStep [0..<length es] es = Some (Inr es')"
      by (simp add: minLengthPass_def)
    show "i < length es" by fact
  next
    fix es k r assume "minLengthStep es k = Some (Inr r)"
    then show "keeps lengthView es r"
      by (rule minLengthStep_keeps[rotated 2]) (simp_all add: lengthView_def radiusView_def)
  qed (rule minLengthStep_local)
  then show ?thesis by blast
qed

lemma keeps_lengthView_radiusView: "keeps lengthView a b \<Longrightarrow> keeps radiusView a b"
  by (erule keeps_weaken) (simp add: lengthView_def)


lemma sameDirection_cong:
  assumes k: "keeps radiusView a b"
      and p: "getPreviousRadius a pos = Some p" and n: "getNextRadius a pos = Some n"
  shows "sameDirection b p n = sameDirection a p n"
proof -
  have "Radius' (b ! j) = Radius' (a ! j)" if "p = Some j" for j
    using getPreviousRadius_hit[of a pos j] p that keeps_radiusView_hit(4)[OF k] by simp
  moreover have "Radius' (b ! j) = Radius' (a ! j)" if "n = Some j" for j
    using getNextRadius_hit[of a pos j] n that keeps_radiusView_hit(4)[OF k] by simp
  ultimately show ?thesis
    by (simp add: sameDirection_def split: option.splits)
qed

lemma minLengthPass_at_Straight:
  assumes "minLengthPass es = Some (Inr es')" "i < length es" "Type (es ! i) = Straight"
  shows "\<exists>p n. getPreviousRadius es (int i) = Some p \<and> getNextRadius es (int i) = Some n \<and>
           MinLength (es' ! i) =
             (if sameDirection es p n then drivingSecondLength (Vp (es ! i)) 5
              else drivingSecondLength (Vp (es ! i)) 1) \<and>
           Vp (es' ! i) = Vp (es ! i)"
proof -
  from minLengthPass_mid[OF assms(1,2)] obtain mid r where
    m: "keeps lengthView es mid" "mid ! i = es ! i"
       "minLengthStep mid i = Some (Inr r)" "es' ! i = r ! i"
    by blast
  have rv: "keeps radiusView es mid" using m(1) by (rule keeps_lengthView_radiusView)
  from keeps_length[OF m(1)] assms(2) have len: "i < length mid" by simp
  from m(3) assms(3) m(2) len obtain p n where
    s: "getPreviousRadius mid (int i) = Some p" "getNextRadius mid (int i) = Some n"
       "MinLength (r ! i) =
          (if sameDirection mid p n then drivingSecondLength (Vp (es ! i)) 5
           else drivingSecondLength (Vp (es ! i)) 1)" "Vp (r ! i) = Vp (es ! i)"
    by (auto simp: minLengthStep_def Let_def split: option.splits sum.splits)
  have ty: "map Type mid = map Type es" using rv by (rule keeps_radiusView_Type)
  from s(1) have p: "getPreviousRadius es (int i) = Some p"
    by (simp add: getPreviousRadius_cong[OF ty])
  from s(2) have n: "getNextRadius es (int i) = Some n"
    by (simp add: getNextRadius_cong[OF ty])
  from sameDirection_cong[OF rv p n] s(3,4) m(4) p n show ?thesis by simp
qed

lemma lengthPass_at:
  assumes "lengthPass es = Some (Inr es')" "i < length es"
  shows "es' ! i = checkLength (es ! i)"
proof -
  have "\<exists>mid r. keeps (\<lambda>e. ()) es mid \<and> mid ! i = es ! i \<and> lengthStep mid i = Some (Inr r) \<and>
           es' ! i = r ! i \<and> keeps (\<lambda>e. ()) r es'"
  proof (rule forEach_upt_elem)
    from assms(1) show "forEach lengthStep [0..<length es] es = Some (Inr es')"
      by (simp add: lengthPass_def)
    show "i < length es" by fact
  next
    fix es k r assume "lengthStep es k = Some (Inr r)"
    then show "keeps (\<lambda>e. ()) es r" by (rule lengthStep_keeps[rotated]) simp
  qed (rule lengthStep_local)
  then obtain mid r where m: "mid ! i = es ! i" "lengthStep mid i = Some (Inr r)"
    "es' ! i = r ! i" "length mid = length es"
    by (auto dest: keeps_length)
  with assms(2) show ?thesis by (auto simp: lengthStep_def)
qed

section \<open>Properties of the lookup tables and of the first three stages\<close>

lemma determineRadiusVp_abs: "determineRadiusVp \<bar>r\<bar> = determineRadiusVp r"
  by (simp add: determineRadiusVp_def)

lemma min_go_min: "min_go a b = min a b"
  by (simp add: min_go_def min_def)

lemma max_go_max: "max_go a b = max a b"
  by (simp add: max_go_def max_def)

lemma capped_speed_cases:
  "min_go MaxVp (determineRadiusVp r) \<in> {40, 45, 50, 55, 60, 65, 70, 75, 80, 85, 90, 95, 100}"
  by (simp add: min_go_def MaxVp_def determineRadiusVp_def Let_def)

lemma clothoidMinLengths_capped:
  "\<exists>l. clothoidMinLengths (min_go MaxVp (determineRadiusVp r)) = Some l"
  using capped_speed_cases[of r] by (auto simp: clothoidMinLengths_def)

lemma capped_speed_wide: "430 < \<bar>r\<bar> \<Longrightarrow> min_go MaxVp (determineRadiusVp r) = 100"
  by (simp add: min_go_def MaxVp_def determineRadiusVp_def Let_def)

lemma capped_speed_over_350: "350 < \<bar>r\<bar> \<Longrightarrow> min_go MaxVp (determineRadiusVp r) = 100"
  by (simp add: min_go_def MaxVp_def determineRadiusVp_def Let_def)

lemma clothoidMinLengths_100: "clothoidMinLengths 100 = Some 56"
  by (simp add: clothoidMinLengths_def)

lemma processElements_radiusView:
  assumes "processElements es = Some (Inr fin)"
  shows "\<exists>e1. radiusPass es = Some (Inr e1) \<and> keeps radiusView e1 fin"
proof -
  from processElements_stages[OF assms] obtain e1 e2 e3 e4 e5 where
    st: "radiusPass es = Some (Inr e1)" "straightPass e1 = Some (Inr e2)"
        "clothoidPass e2 = Some (Inr e3)" "minLengthPass e3 = Some (Inr e4)"
        "vpDiffPass e4 = Some (Inr e5)" "lengthPass e5 = Some (Inr fin)"
    by blast
  note k = radiusView_after_radiusPass[OF st(2-6)]
  from k have "keeps radiusView e1 fin" by (blast intro: keeps_trans)
  with st(1) show ?thesis by blast
qed

lemma radiusPass_geometry:
  assumes "radiusPass es = Some (Inr e1)"
  shows "keeps (\<lambda>e. (Type e, Length e, Radius' e, Errors e)) es e1"
  by (rule radiusPass_keeps[OF _ assms]) simp

lemma radius_element_final:
  assumes "processElements es = Some (Inr fin)" and "i < length es"
      and "Type (es ! i) = Radius"
  shows "\<exists>l. clothoidMinLengths (min_go MaxVp (determineRadiusVp (Radius' (es ! i)))) = Some l \<and>
           Vp (fin ! i) = min_go MaxVp (determineRadiusVp (Radius' (es ! i))) \<and>
           AMin (fin ! i) = sqrt (\<bar>Radius' (es ! i)\<bar> * l) \<and>
           AMax (fin ! i) = sqrt (\<bar>Radius' (es ! i)\<bar> * l * 2)"
proof -
  let ?r = "Radius' (es ! i)"
  let ?vp = "min_go MaxVp (determineRadiusVp ?r)"
  from processElements_radiusView[OF assms(1)] obtain e1 where
    e1: "radiusPass es = Some (Inr e1)" "keeps radiusView e1 fin" by blast
  from radiusPass_at[OF e1(1) assms(2,3)] obtain l where
    l: "determineMinClothoidLength ?vp = Inr l"
       "e1 ! i = (es ! i)\<lparr>Vp := ?vp, AMin := sqrt (\<bar>?r\<bar> * l), AMax := sqrt (\<bar>?r\<bar> * l * 2)\<rparr>"
    by blast
  from keeps_length[OF radiusPass_geometry[OF e1(1)]] assms(2) have len: "i < length e1"
    by simp
  from l(2) assms(3) have ty: "Type (e1 ! i) = Radius" by simp
  from keeps_radiusView_hit[OF e1(2) len ty] l(2)
  have fin: "Vp (fin ! i) = ?vp" "AMin (fin ! i) = sqrt (\<bar>?r\<bar> * l)"
    "AMax (fin ! i) = sqrt (\<bar>?r\<bar> * l * 2)" by simp_all
  from l(1) have cl: "clothoidMinLengths ?vp = Some l"
    by (auto simp: determineMinClothoidLength_def split: option.splits)
  with fin show ?thesis by blast
qed

lemma straightLoop_first:
  "k < length bs \<Longrightarrow> len \<le> bs ! k \<Longrightarrow> (\<forall>m<k. bs ! m < len) \<Longrightarrow>
   straightLoop bs i len = Some (i + int k)"
proof (induction bs arbitrary: i k)
  case Nil
  then show ?case by simp
next
  case (Cons b bs)
  show ?case
  proof (cases k)
    case 0
    with Cons.prems show ?thesis by simp
  next
    case (Suc k')
    with Cons.prems have "b < len" by auto
    moreover from Suc Cons.prems have "straightLoop bs (i + 1) len = Some (i + 1 + int k')"
      by (intro Cons.IH) auto
    ultimately show ?thesis using Suc by simp
  qed
qed

lemma straightLoop_none:
  "(\<forall>b\<in>set bs. b < len) \<Longrightarrow> straightLoop bs i len = None"
  by (induction bs arbitrary: i) auto

lemma go_rem_nonneg: "0 \<le> a \<Longrightarrow> go_rem a 10 = a mod 10"
  by (cases "a = 0") (simp_all add: go_rem_def)

lemma determineStraightVp_breakpoints:
  assumes "0 \<le> radiusVp" and "determineStraightVp radiusVp len = Inr v"
  shows "\<exists>bs. straightVps (radiusVp - radiusVp mod 10) = Some bs \<and>
           (\<forall>k<length bs. len \<le> bs ! k \<and> (\<forall>m<k. bs ! m < len) \<longrightarrow>
              v = (radiusVp - radiusVp mod 10) + 10 * int k + radiusVp mod 10) \<and>
           ((\<forall>b\<in>set bs. b < len) \<longrightarrow> v = 100)"
proof -
  let ?b = "radiusVp - radiusVp mod 10"
  from assms obtain bs where bs: "straightVps ?b = Some bs"
    by (auto simp: determineStraightVp_def Let_def go_rem_nonneg split: option.splits)
  with assms have v: "v = (case straightLoop bs 0 len of
                             Some i \<Rightarrow> ?b + (10 * i + radiusVp mod 10) | None \<Rightarrow> MaxStraightVp)"
    by (auto simp: determineStraightVp_def Let_def go_rem_nonneg split: option.splits)
  have "v = ?b + 10 * int k + radiusVp mod 10"
    if "k < length bs" "len \<le> bs ! k" "\<forall>m<k. bs ! m < len" for k
    using straightLoop_first[OF that, of 0] v by simp
  moreover have "v = 100" if "\<forall>b\<in>set bs. b < len"
    using straightLoop_none[OF that, of 0] v by (simp add: MaxStraightVp_def)
  ultimately show ?thesis using bs by blast
qed

lemma radius_speed_positive:
  assumes "processElements es = Some (Inr fin)" "j < length es" "Type (es ! j) = Radius"
  shows "0 \<le> Vp (fin ! j)"
proof -
  from radius_element_final[OF assms]
  have "Vp (fin ! j) = min_go MaxVp (determineRadiusVp (Radius' (es ! j)))" by blast
  with capped_speed_cases[of "Radius' (es ! j)"] show ?thesis by auto
qed

lemma flankVp_neighbourVp:
  assumes "\<And>j. p = Some j \<Longrightarrow> 0 \<le> Vp (es ! j)"
  shows "flankVp es p n = max (neighbourVp es p) (neighbourVp es n)"
  using assms by (auto simp: flankVp_def neighbourVp_def max_go_max split: option.splits)

lemma processElements_frames:
  assumes "processElements es = Some (Inr fin)"
  obtains e1 e2 e3 e4 e5 where
    "radiusPass es = Some (Inr e1)" "straightPass e1 = Some (Inr e2)"
    "clothoidPass e2 = Some (Inr e3)" "minLengthPass e3 = Some (Inr e4)"
    "vpDiffPass e4 = Some (Inr e5)" "lengthPass e5 = Some (Inr fin)"
    "keeps baseView es e1" "keeps baseView e1 e2" "keeps baseView e2 e3" "keeps baseView e3 e4"
    "keeps radiusView e1 e2" "keeps radiusView e2 e3" "keeps radiusView e3 e4"
    "keeps radiusView e4 e5" "keeps radiusView e5 fin"
    "keeps straightVpView e2 e3" "keeps Vp e3 e4" "keeps Vp e4 e5" "keeps Vp e5 fin"
    "keeps (\<lambda>e. (MinLength e, MaxLength e)) e4 e5"
    "keeps (\<lambda>e. (MinLength e, MaxLength e)) e5 fin"
proof -
  from processElements_stages[OF assms] obtain e1 e2 e3 e4 e5 where
    st: "radiusPass es = Some (Inr e1)" "straightPass e1 = Some (Inr e2)"
        "clothoidPass e2 = Some (Inr e3)" "minLengthPass e3 = Some (Inr e4)"
        "vpDiffPass e4 = Some (Inr e5)" "lengthPass e5 = Some (Inr fin)"
    by blast
  note rv = radiusView_after_radiusPass[OF st(2-6)]
  have b1: "keeps baseView es e1"
    by (rule radiusPass_keeps[OF _ st(1)]) (simp add: baseView_def)
  have b2: "keeps baseView e1 e2"
    by (rule straightPass_keeps[OF _ st(2)]) (simp add: baseView_def)
  have b3: "keeps baseView e2 e3"
    by (rule clothoidPass_keeps[OF _ st(3)]) (simp add: baseView_def)
  have b4: "keeps baseView e3 e4"
    by (rule minLengthPass_keeps[OF _ _ st(4)]) (simp_all add: baseView_def)
  have s3: "keeps straightVpView e2 e3"
    by (rule clothoidPass_keeps[OF _ st(3)]) (simp add: straightVpView_def)
  have v4: "keeps Vp e3 e4"
    by (rule minLengthPass_keeps[OF _ _ st(4)]) simp_all
  have v5: "keeps Vp e4 e5"
    by (rule vpDiffPass_keeps[OF _ st(5)]) simp
  have v6: "keeps Vp e5 fin"
    by (rule lengthPass_keeps[OF _ st(6)]) (simp add: checkLength_fields)
  have m5: "keeps (\<lambda>e. (MinLength e, MaxLength e)) e4 e5"
    by (rule vpDiffPass_keeps[OF _ st(5)]) simp
  have m6: "keeps (\<lambda>e. (MinLength e, MaxLength e)) e5 fin"
    by (rule lengthPass_keeps[OF _ st(6)]) (simp add: checkLength_fields)
  from st b1 b2 b3 b4 rv s3 v4 v5 v6 m5 m6 show ?thesis by (rule that)
qed

lemma keeps_baseView_Type: "keeps baseView a b \<Longrightarrow> map Type b = map Type a"
proof -
  assume "keeps baseView a b"
  then have "keeps Type a b" by (rule keeps_weaken) (simp add: baseView_def)
  then show ?thesis by (simp add: keeps_def)
qed

lemma keeps_baseView_nth:
  assumes "keeps baseView a b" "j < length a"
  shows "Type (b ! j) = Type (a ! j)" "Length (b ! j) = Length (a ! j)"
        "Radius' (b ! j) = Radius' (a ! j)" "Errors (b ! j) = Errors (a ! j)"
  using keeps_nth[OF assms(1,2)] by (auto simp: baseView_def)

lemma straight_element_final:
  assumes run: "processElements es = Some (Inr fin)" and i: "i < length es"
      and ty: "Type (es ! i) = Straight"
  shows "\<exists>p n. getPreviousRadius es (int i) = Some p \<and> getNextRadius es (int i) = Some n \<and>
           0 \<le> max (neighbourVp fin p) (neighbourVp fin n) \<and>
           determineStraightVp (max (neighbourVp fin p) (neighbourVp fin n)) (Length (es ! i))
             = Inr (Vp (fin ! i))"
proof -
  from run obtain e1 e2 e3 e4 e5 where
    st: "radiusPass es = Some (Inr e1)" "straightPass e1 = Some (Inr e2)"
      and b1: "keeps baseView es e1"
      and rv: "keeps radiusView e1 e2" "keeps radiusView e2 e3" "keeps radiusView e3 e4"
              "keeps radiusView e4 e5" "keeps radiusView e5 fin"
      and sv: "keeps straightVpView e2 e3"
      and vp: "keeps Vp e3 e4" "keeps Vp e4 e5" "keeps Vp e5 fin"
    by (rule processElements_frames)
  have len1: "length e1 = length es" using b1 by (rule keeps_length)
  have ty1: "map Type e1 = map Type es" using b1 by (rule keeps_baseView_Type)
  from keeps_baseView_nth[OF b1 i] ty have e1i: "Type (e1 ! i) = Straight"
    "Length (e1 ! i) = Length (es ! i)" by simp_all
  from i len1 have i1: "i < length e1" by simp
  from straightPass_at[OF st(2) i1 e1i(1)] obtain p n v where
    s: "getPreviousRadius e1 (int i) = Some p" "getNextRadius e1 (int i) = Some n"
       "determineStraightVp (flankVp e1 p n) (Length (e1 ! i)) = Inr v" "Vp (e2 ! i) = v"
    by blast
  have p: "getPreviousRadius es (int i) = Some p"
    using s(1) by (simp add: getPreviousRadius_cong[OF ty1])
  have n: "getNextRadius es (int i) = Some n"
    using s(2) by (simp add: getNextRadius_cong[OF ty1])
  have rvf: "keeps radiusView e1 fin" using rv by (blast intro: keeps_trans)
  have fl: "flankVp fin p n = flankVp e1 p n" using rvf s(1,2) by (rule flankVp_cong)
  have pos: "0 \<le> Vp (fin ! j)" if "p = Some j" for j
  proof -
    from getPreviousRadius_hit[of es "int i" j] p that
    have "j < length es" "Type (es ! j) = Radius" by simp_all
    with run show ?thesis by (rule radius_speed_positive)
  qed
  have fm: "flankVp fin p n = max (neighbourVp fin p) (neighbourVp fin n)"
    by (rule flankVp_neighbourVp) (rule pos)
  have nonneg: "0 \<le> flankVp fin p n"
    by (auto simp: flankVp_def max_go_max split: option.splits)
  have len2: "length e2 = length e1" "length e3 = length e2" "length e4 = length e3"
    "length e5 = length e4"
    using rv by (auto dest: keeps_length)
  from keeps_radiusView_nth(1)[OF rv(1) i1] e1i(1) have t2: "Type (e2 ! i) = Straight" by simp
  from keeps_nth[OF sv, of i] i1 len2 t2 have "Vp (e3 ! i) = Vp (e2 ! i)"
    by (auto simp: straightVpView_def)
  moreover from keeps_nth[OF vp(1), of i] i1 len2 have "Vp (e4 ! i) = Vp (e3 ! i)" by simp
  moreover from keeps_nth[OF vp(2), of i] i1 len2 have "Vp (e5 ! i) = Vp (e4 ! i)" by simp
  moreover from keeps_nth[OF vp(3), of i] i1 len2 have "Vp (fin ! i) = Vp (e5 ! i)" by simp
  ultimately have "Vp (fin ! i) = v" using s(4) by simp
  with s(3) e1i(2) fl fm nonneg p n show ?thesis by auto
qed

section \<open>Flags and the minimum length of a Straight\<close>

lemma flag_test: "n < 64 \<Longrightarrow> ((x::Flag) AND push_bit n 1 \<noteq> 0) = bit x n"
  by (simp add: push_bit_of_1 and_exp_eq_0_iff_not_bit)

lemma flag_set: "n < 64 \<Longrightarrow> bit ((x::Flag) OR push_bit n 1) m = (bit x m \<or> m = n)"
  by (auto simp add: push_bit_of_1 bit_or_iff bit_exp_iff)

lemma EVpDiff_test: "(x AND EVpDiff \<noteq> 0) = bit x 0"
  unfolding EVpDiff_def by (rule flag_test) simp



lemma EVpDiff_set: "bit (x OR EVpDiff) m = (bit x m \<or> m = 0)"
  unfolding EVpDiff_def by (rule flag_set) simp

lemma EMinLength_set: "bit (x OR EMinLength) m = (bit x m \<or> m = 1)"
  unfolding EMinLength_def by (rule flag_set) simp

lemma EMaxLength_set: "bit (x OR EMaxLength) m = (bit x m \<or> m = 2)"
  unfolding EMaxLength_def by (rule flag_set) simp

lemma checkLength_bits:
  "bit (Errors (checkLength e)) 0 = bit (Errors e) 0"
  "bit (Errors (checkLength e)) 1 = (bit (Errors e) 1 \<or> Length e < MinLength e)"
  "bit (Errors (checkLength e)) 2 =
     (bit (Errors e) 2 \<or> (MaxLength e \<noteq> 0 \<and> MaxLength e < Length e))"
  by (auto simp: checkLength_def Let_def EMinLength_set EMaxLength_set)

lemma sameDirection_base:
  assumes k: "keeps baseView a b"
      and p: "getPreviousRadius a pos = Some p" and n: "getNextRadius a pos = Some n"
  shows "sameDirection b p n = sameDirection a p n"
proof -
  have "Radius' (b ! j) = Radius' (a ! j)" if "p = Some j" for j
    using getPreviousRadius_hit[of a pos j] p that keeps_baseView_nth(3)[OF k] by simp
  moreover have "Radius' (b ! j) = Radius' (a ! j)" if "n = Some j" for j
    using getNextRadius_hit[of a pos j] n that keeps_baseView_nth(3)[OF k] by simp
  ultimately show ?thesis
    by (simp add: sameDirection_def split: option.splits)
qed

lemma sameDirection_words:
  "sameDirection es p n =
     (\<exists>a b. p = Some a \<and> n = Some b \<and>
        (Radius' (es ! a) < 0 \<and> Radius' (es ! b) < 0 \<or>
         0 < Radius' (es ! a) \<and> 0 < Radius' (es ! b)))"
  by (auto simp: sameDirection_def split: option.splits)

lemma straight_length_final:
  assumes run: "processElements es = Some (Inr fin)" and i: "i < length es"
      and ty: "Type (es ! i) = Straight"
  shows "\<exists>p n. getPreviousRadius es (int i) = Some p \<and> getNextRadius es (int i) = Some n \<and>
           MinLength (fin ! i) =
             (if sameDirection es p n then drivingSecondLength (Vp (fin ! i)) 5
              else drivingSecondLength (Vp (fin ! i)) 1)"
proof -
  from run obtain e1 e2 e3 e4 e5 where
    st: "minLengthPass e3 = Some (Inr e4)"
      and b: "keeps baseView es e1" "keeps baseView e1 e2" "keeps baseView e2 e3"
      and vp: "keeps Vp e4 e5" "keeps Vp e5 fin"
      and ml: "keeps (\<lambda>e. (MinLength e, MaxLength e)) e4 e5"
              "keeps (\<lambda>e. (MinLength e, MaxLength e)) e5 fin"
    by (rule processElements_frames)
  have b3: "keeps baseView es e3" using b by (blast intro: keeps_trans)
  have len3: "length e3 = length es" using b3 by (rule keeps_length)
  have ty3: "map Type e3 = map Type es" using b3 by (rule keeps_baseView_Type)
  from keeps_baseView_nth(1)[OF b3 i] ty have t3: "Type (e3 ! i) = Straight" by simp
  from i len3 have i3: "i < length e3" by simp
  from minLengthPass_at_Straight[OF st i3 t3] obtain p n where
    s: "getPreviousRadius e3 (int i) = Some p" "getNextRadius e3 (int i) = Some n"
       "MinLength (e4 ! i) =
          (if sameDirection e3 p n then drivingSecondLength (Vp (e3 ! i)) 5
           else drivingSecondLength (Vp (e3 ! i)) 1)"
       "Vp (e4 ! i) = Vp (e3 ! i)"
    by blast
  have p: "getPreviousRadius es (int i) = Some p"
    using s(1) by (simp add: getPreviousRadius_cong[OF ty3])
  have n: "getNextRadius es (int i) = Some n"
    using s(2) by (simp add: getNextRadius_cong[OF ty3])
  have sd: "sameDirection e3 p n = sameDirection es p n" using b3 p n by (rule sameDirection_base)
  have len: "length e4 = length e3" "length e5 = length e4"
    using st vp(1) by (auto dest: keeps_length minLengthPass_keeps[where g = Vp, rotated 2])
  from keeps_nth[OF vp(1), of i] keeps_nth[OF vp(2), of i] i3 len s(4)
  have v: "Vp (fin ! i) = Vp (e3 ! i)" by simp
  from keeps_nth[OF ml(1), of i] keeps_nth[OF ml(2), of i] i3 len
  have m: "MinLength (fin ! i) = MinLength (e4 ! i)" by simp
  from s(3) sd v m p n show ?thesis by simp
qed

section \<open>The mean speed\<close>

lemma meanLoop_sums:
  "meanLoop es t p =
     (t + sum_list (map Length es), p + sum_list (map (\<lambda>e. Length e * real_of_int (Vp e)) es))"
  by (induction es arbitrary: t p) (simp_all add: algebra_simps)

section \<open>Stage 5 and the flags\<close>

lemma vpInvalid_words: "vpInvalid a b = speedGapViolation a b"
  by (simp add: vpInvalid_def speedGapViolation_def abs_go_def abs_if)

lemma vpDiffStep_result:
  "vpDiffStep es k =
     Some (Inr (if vpInvalid (Vp (es ! k)) (Vp (es ! (k + 1)))
                then es[k := (es ! k)\<lparr>Errors := Errors (es ! k) OR EVpDiff\<rparr>,
                        k + 1 := (es ! (k + 1))\<lparr>Errors := Errors (es ! (k + 1)) OR EVpDiff\<rparr>]
                else es))"
  by (simp add: vpDiffStep_def Let_def)

lemma vpDiff_prefix:
  assumes "m < length es"
  shows "\<exists>s. forEach vpDiffStep [0..<m] es = Some (Inr s) \<and> length s = length es \<and>
           (\<forall>j<length es. s ! j = (if flagged es m j
                                    then (es ! j)\<lparr>Errors := Errors (es ! j) OR EVpDiff\<rparr>
                                    else es ! j))"
  using assms
proof (induction m)
  case 0
  then show ?case by (simp add: flagged_def)
next
  case (Suc m)
  then obtain s where s: "forEach vpDiffStep [0..<m] es = Some (Inr s)" "length s = length es"
    "\<forall>j<length es. s ! j = (if flagged es m j
                             then (es ! j)\<lparr>Errors := Errors (es ! j) OR EVpDiff\<rparr>
                             else es ! j)"
    by auto
  from Suc.prems have m: "m < length es" "Suc m < length es" by auto
  have vm: "Vp (s ! m) = Vp (es ! m)" "Vp (s ! Suc m) = Vp (es ! Suc m)"
    using s(3) m by auto
  have nf: "\<not> flagged es m (Suc m)" by (simp add: flagged_def)
  let ?s' = "if vpInvalid (Vp (es ! m)) (Vp (es ! Suc m))
             then s[m := (s ! m)\<lparr>Errors := Errors (s ! m) OR EVpDiff\<rparr>,
                    Suc m := (s ! Suc m)\<lparr>Errors := Errors (s ! Suc m) OR EVpDiff\<rparr>]
             else s"
  have run: "forEach vpDiffStep [0..<Suc m] es = Some (Inr ?s')"
    using s(1) vm by (simp add: forEach_append vpDiffStep_result)
  have len: "length ?s' = length es" using s(2) by simp
  have "?s' ! j = (if flagged es (Suc m) j
                   then (es ! j)\<lparr>Errors := Errors (es ! j) OR EVpDiff\<rparr> else es ! j)"
    if j: "j < length es" for j
  proof (cases "vpInvalid (Vp (es ! m)) (Vp (es ! Suc m))")
    case False
    then have "flagged es (Suc m) j = flagged es m j"
      by (auto simp: flagged_def less_Suc_eq le_Suc_eq)
    with False s(3) j show ?thesis by simp
  next
    case True
    consider "j = m" | "j = Suc m" | "j \<noteq> m" "j \<noteq> Suc m" by blast
    then show ?thesis
    proof cases
      case 1
      with True have "flagged es (Suc m) j" by (simp add: flagged_def)
      with True 1 s(2,3) m show ?thesis by (simp add: or.assoc)
    next
      case 2
      with True have "flagged es (Suc m) j" by (simp add: flagged_def)
      with True 2 s(2,3) m nf show ?thesis by simp
    next
      case 3
      then have "flagged es (Suc m) j = flagged es m j"
        by (auto simp: flagged_def less_Suc_eq le_Suc_eq)
      with True 3 s(3) j show ?thesis by simp
    qed
  qed
  with run len show ?case by blast
qed

lemma vpDiffPass_at:
  assumes "vpDiffPass es = Some (Inr es')" and "j < length es"
  shows "es' ! j = (if (j + 1 < length es \<and> vpInvalid (Vp (es ! j)) (Vp (es ! (j + 1)))) \<or>
                       (0 < j \<and> vpInvalid (Vp (es ! (j - 1))) (Vp (es ! j)))
                    then (es ! j)\<lparr>Errors := Errors (es ! j) OR EVpDiff\<rparr> else es ! j)"
proof -
  from assms(2) have m: "length es - 1 < length es" by simp
  from assms have run: "forEach vpDiffStep [0..<length es - 1] es = Some (Inr es')"
    by (simp add: vpDiffPass_def split: if_splits)
  from vpDiff_prefix[OF m] run assms(2)
  have "es' ! j = (if flagged es (length es - 1) j
                   then (es ! j)\<lparr>Errors := Errors (es ! j) OR EVpDiff\<rparr> else es ! j)"
    by auto
  moreover have "flagged es (length es - 1) j =
     ((j + 1 < length es \<and> vpInvalid (Vp (es ! j)) (Vp (es ! (j + 1)))) \<or>
      (0 < j \<and> vpInvalid (Vp (es ! (j - 1))) (Vp (es ! j))))"
    using assms(2) by (auto simp: flagged_def)
  ultimately show ?thesis by simp
qed

lemma flag_bits:
  "bit EVpDiff m = (m = 0)" "bit EMinLength m = (m = 1)" "bit EMaxLength m = (m = 2)"
  using EVpDiff_set[of 0 m] EMinLength_set[of 0 m] EMaxLength_set[of 0 m] by simp_all


section \<open>Clothoid elements after a run\<close>


section \<open>Fatal errors of the stages\<close>

lemma forEach_success:
  assumes "\<And>es k. \<exists>r. body es k = Some (Inr r)"
  shows "\<exists>r. forEach body is es = Some (Inr r)"
proof (induction "is" arbitrary: es)
  case Nil
  then show ?case by simp
next
  case (Cons k ks)
  from assms obtain r where "body es k = Some (Inr r)" by blast
  with Cons.IH[of r] show ?case by auto
qed

lemma forEach_Inl_step:
  assumes "forEach body is es = Some (Inl x)"
      and "\<And>es k r. body es k = Some (Inr r) \<Longrightarrow> keeps f es r"
  shows "\<exists>mid k. k \<in> set is \<and> keeps f es mid \<and> body mid k = Some (Inl x)"
  using assms(1)
proof (induction "is" arbitrary: es)
  case Nil
  then show ?case by simp
next
  case (Cons k ks)
  show ?case
  proof (cases "body es k")
    case None
    with Cons.prems show ?thesis by simp
  next
    case (Some r)
    show ?thesis
    proof (cases r)
      case (Inl y)
      with Some Cons.prems have "body es k = Some (Inl x)" by simp
      then show ?thesis using keeps_refl[of f es] by fastforce
    next
      case (Inr es1)
      with Some Cons.prems have run: "forEach body ks es1 = Some (Inl x)" by simp
      from Some Inr have k: "keeps f es es1" by (auto intro: assms(2))
      from Cons.IH[OF run] obtain mid j where
        "j \<in> set ks" "keeps f es1 mid" "body mid j = Some (Inl x)" by blast
      with k show ?thesis by (auto intro: keeps_trans)
    qed
  qed
qed

lemma forEach_fails:
  assumes "k \<in> set is"
      and fail: "\<And>mid. keeps f es mid \<Longrightarrow> \<exists>x. body mid k = Some (Inl x)"
      and fr: "\<And>es k r. body es k = Some (Inr r) \<Longrightarrow> keeps f es r"
      and total: "\<And>es k. \<exists>r. body es k = Some r"
  shows "\<exists>x. forEach body is es = Some (Inl x)"
  using assms(1,2)
proof (induction "is" arbitrary: es)
  case Nil
  then show ?case by simp
next
  case (Cons j js)
  from total obtain r where r: "body es j = Some r" by blast
  show ?case
  proof (cases r)
    case (Inl y)
    with r show ?thesis by simp
  next
    case (Inr es1)
    from Cons.prems(2)[OF keeps_refl] r Inr have "k \<noteq> j" by auto
    with Cons.prems(1) have kin: "k \<in> set js" by simp
    from r Inr have k1: "keeps f es es1" by (auto intro: fr)
    have "\<exists>x. body mid k = Some (Inl x)" if "keeps f es1 mid" for mid
      using Cons.prems(2)[OF keeps_trans[OF k1 that]] .
    from Cons.IH[OF kin this] r Inr show ?thesis by simp
  qed
qed

lemma radiusStep_success: "\<exists>r. radiusStep es k = Some (Inr r)"
  using clothoidMinLengths_capped[of "Radius' (es ! k)"]
  by (auto simp: radiusStep_def Let_def determineMinClothoidLength_def)

lemma radiusPass_success: "\<exists>e1. radiusPass es = Some (Inr e1)"
  unfolding radiusPass_def by (rule forEach_success) (rule radiusStep_success)

lemma straightVps_None_iff: "(straightVps b = None) = (b \<notin> {40, 50, 60, 70, 80, 90})"
  by (simp add: straightVps_def)

lemma determineStraightVp_Inl_iff:
  "(determineStraightVp rv len = Inl x) =
     (straightVps (rv - go_rem rv 10) = None \<and> x = VpNotFound (rv - go_rem rv 10))"
  by (auto simp: determineStraightVp_def Let_def split: option.splits)

lemma straightStep_total: "\<exists>r. straightStep es k = Some r"
  using getPreviousRadius_total[of es "int k"] getNextRadius_total[of es "int k"]
  by (auto simp: straightStep_def Let_def split: sum.splits)

lemma straightStep_Inl_iff:
  "(straightStep es k = Some (Inl x)) =
     (Type (es ! k) = Straight \<and>
      (\<exists>p n. getPreviousRadius es (int k) = Some p \<and> getNextRadius es (int k) = Some n \<and>
         determineStraightVp (flankVp es p n) (Length (es ! k)) = Inl x))"
  by (auto simp: straightStep_def Let_def split: option.splits sum.splits)

lemma flankVp_nonneg: "0 \<le> flankVp es p n"
  by (auto simp: flankVp_def max_go_max split: option.splits)

lemma straightStep_keeps_radiusView:
  "straightStep es k = Some (Inr r) \<Longrightarrow> keeps radiusView es r"
  by (erule straightStep_keeps[rotated]) (simp add: radiusView_def)

lemma straightPass_fatal_iff:
  "(\<exists>x. straightPass e1 = Some (Inl x)) =
     (\<exists>i p n. i < length e1 \<and> Type (e1 ! i) = Straight \<and>
        getPreviousRadius e1 (int i) = Some p \<and> getNextRadius e1 (int i) = Some n \<and>
        flankVp e1 p n - flankVp e1 p n mod 10 \<notin> {40, 50, 60, 70, 80, 90})"
  (is "?L = ?R")
proof
  assume ?L
  then obtain x where "forEach straightStep [0..<length e1] e1 = Some (Inl x)"
    by (auto simp: straightPass_def)
  then have "\<exists>mid k. k \<in> set [0..<length e1] \<and> keeps radiusView e1 mid \<and>
                     straightStep mid k = Some (Inl x)"
    by (rule forEach_Inl_step) (rule straightStep_keeps_radiusView)
  then obtain mid k where
    m: "k \<in> set [0..<length e1]" "keeps radiusView e1 mid" "straightStep mid k = Some (Inl x)"
    by blast
  from m(1) have k: "k < length e1" by simp
  have ty: "map Type mid = map Type e1" using m(2) by (rule keeps_radiusView_Type)
  from m(3) obtain p n where
    s: "Type (mid ! k) = Straight" "getPreviousRadius mid (int k) = Some p"
       "getNextRadius mid (int k) = Some n"
       "determineStraightVp (flankVp mid p n) (Length (mid ! k)) = Inl x"
    by (auto simp: straightStep_Inl_iff)
  have p: "getPreviousRadius e1 (int k) = Some p"
    using s(2) by (simp add: getPreviousRadius_cong[OF ty])
  have n: "getNextRadius e1 (int k) = Some n"
    using s(3) by (simp add: getNextRadius_cong[OF ty])
  have fl: "flankVp mid p n = flankVp e1 p n" using m(2) p n by (rule flankVp_cong)
  from s(4) fl have "straightVps (flankVp e1 p n - go_rem (flankVp e1 p n) 10) = None"
    by (simp add: determineStraightVp_Inl_iff)
  then have "flankVp e1 p n - flankVp e1 p n mod 10 \<notin> {40, 50, 60, 70, 80, 90}"
    by (simp add: go_rem_nonneg flankVp_nonneg straightVps_None_iff)
  moreover from keeps_radiusView_nth(1)[OF m(2) k] s(1) have "Type (e1 ! k) = Straight"
    by simp
  ultimately show ?R using k p n by blast
next
  assume ?R
  then obtain i p n where
    r: "i < length e1" "Type (e1 ! i) = Straight" "getPreviousRadius e1 (int i) = Some p"
       "getNextRadius e1 (int i) = Some n"
       "flankVp e1 p n - flankVp e1 p n mod 10 \<notin> {40, 50, 60, 70, 80, 90}"
    by blast
  have "\<exists>x. straightStep mid i = Some (Inl x)" if k: "keeps radiusView e1 mid" for mid
  proof -
    have ty: "map Type mid = map Type e1" using k by (rule keeps_radiusView_Type)
    have fl: "flankVp mid p n = flankVp e1 p n" using k r(3,4) by (rule flankVp_cong)
    from r(5) have "straightVps (flankVp e1 p n - go_rem (flankVp e1 p n) 10) = None"
      by (simp add: go_rem_nonneg flankVp_nonneg straightVps_None_iff)
    with fl have "\<exists>x. determineStraightVp (flankVp mid p n) (Length (mid ! i)) = Inl x"
      by (simp add: determineStraightVp_Inl_iff)
    moreover from keeps_radiusView_nth(1)[OF k r(1)] r(2) have "Type (mid ! i) = Straight"
      by simp
    ultimately show ?thesis
      using r(3,4) by (auto simp: straightStep_Inl_iff getPreviousRadius_cong[OF ty]
                                  getNextRadius_cong[OF ty])
  qed
  note fail = this
  have "\<exists>x. forEach straightStep [0..<length e1] e1 = Some (Inl x)"
  proof (rule forEach_fails[where f = radiusView and k = i])
    from r(1) show "i \<in> set [0..<length e1]" by simp
    show "\<exists>x. straightStep mid i = Some (Inl x)" if "keeps radiusView e1 mid" for mid
      using that by (rule fail)
    show "keeps radiusView es r" if "straightStep es k = Some (Inr r)" for es k r
      using that by (rule straightStep_keeps_radiusView)
    show "\<exists>r. straightStep es k = Some r" for es k
      by (rule straightStep_total)
  qed
  then show ?L by (simp add: straightPass_def)
qed

lemma forEach_Inl_plain:
  "forEach body is es = Some (Inl x) \<Longrightarrow> \<exists>mid k. body mid k = Some (Inl x)"
proof (induction "is" arbitrary: es)
  case Nil
  then show ?case by simp
next
  case (Cons k ks)
  then show ?case by (auto split: option.splits sum.splits)
qed

lemma getNearestRadius_Inl: "getNearestRadius es pos = Some (Inl x) \<Longrightarrow> x = NoNearestRadius"
  by (auto simp: getNearestRadius_def split: option.splits prod.splits if_splits)

lemma straightPass_Inl_kind: "straightPass e = Some (Inl x) \<Longrightarrow> \<exists>b. x = VpNotFound b"
  unfolding straightPass_def
  by (auto dest!: forEach_Inl_plain simp: straightStep_Inl_iff determineStraightVp_Inl_iff)

lemma clothoidPass_Inl_kind: "clothoidPass e = Some (Inl x) \<Longrightarrow> x = NoNearestRadius"
  unfolding clothoidPass_def
  by (auto dest!: forEach_Inl_plain getNearestRadius_Inl
           simp: clothoidStep_def Let_def split: if_splits option.splits sum.splits)

lemma minLengthPass_Inl_kind: "minLengthPass e = Some (Inl x) \<Longrightarrow> x = NoNearestRadius"
  unfolding minLengthPass_def
  by (auto dest!: forEach_Inl_plain getNearestRadius_Inl
           simp: minLengthStep_def Let_def
           split: if_splits option.splits sum.splits ElementType.splits)

lemma vpDiffPass_Inl_kind: "vpDiffPass e = Some (Inl x) \<Longrightarrow> x = SliceBoundsOutOfRange"
  unfolding vpDiffPass_def
  by (auto dest!: forEach_Inl_plain simp: vpDiffStep_result split: if_splits)

lemma lengthPass_Inl_kind: "lengthPass e = Some (Inl x) \<Longrightarrow> False"
  unfolding lengthPass_def
  by (auto dest!: forEach_Inl_plain simp: lengthStep_def)

lemma processElements_VpNotFound:
  assumes "radiusPass es = Some (Inr e1)"
  shows "(processElements es = Some (Inl (VpNotFound b))) =
         (straightPass e1 = Some (Inl (VpNotFound b)))"
proof (cases "straightPass e1")
  case None
  with assms show ?thesis
    by (simp add: processElements_def speedStages_def andThen_def)
next
  case (Some r)
  show ?thesis
  proof (cases r)
    case (Inl x)
    with Some assms show ?thesis
      by (simp add: processElements_def speedStages_def andThen_def)
  next
    case (Inr e2)
    have "processElements es \<noteq> Some (Inl (VpNotFound b))"
    proof
      assume a: "processElements es = Some (Inl (VpNotFound b))"
      with assms Some Inr show False
        by (auto simp: processElements_def speedStages_def andThen_def
                 split: option.splits sum.splits
                 dest: clothoidPass_Inl_kind minLengthPass_Inl_kind vpDiffPass_Inl_kind
                       lengthPass_Inl_kind)
    qed
    with Some Inr show ?thesis by simp
  qed
qed

lemma flankVp_after_radiusPass:
  assumes rp: "radiusPass es = Some (Inr e1)"
      and p: "getPreviousRadius es pos = Some p" and n: "getNextRadius es pos = Some n"
  shows "flankVp e1 p n = max (neighbourSpeed es p) (neighbourSpeed es n)"
proof -
  have vp: "Vp (e1 ! j) = min 100 (determineRadiusVp \<bar>Radius' (es ! j)\<bar>)"
    if "j < length es" "Type (es ! j) = Radius" for j
    using radiusPass_at[OF rp that]
    by (auto simp: min_go_min MaxVp_def determineRadiusVp_abs)
  have pos: "0 \<le> min 100 (determineRadiusVp r)" for r
    by (simp add: determineRadiusVp_def Let_def)
  have a: "neighbourVp e1 p = neighbourSpeed es p"
    using getPreviousRadius_hit[of es pos] p vp
    by (auto simp: neighbourVp_def neighbourSpeed_def split: option.splits)
  have b: "neighbourVp e1 n = neighbourSpeed es n"
    using getNextRadius_hit[of es pos] n vp
    by (auto simp: neighbourVp_def neighbourSpeed_def split: option.splits)
  have "flankVp e1 p n = max (neighbourVp e1 p) (neighbourVp e1 n)"
  proof (rule flankVp_neighbourVp)
    fix j assume "p = Some j"
    with getPreviousRadius_hit[of es pos j] p vp[of j] pos show "0 \<le> Vp (e1 ! j)" by simp
  qed
  with a b show ?thesis by simp
qed

section \<open>Running the stages on a given alignment\<close>

lemma less_sqrt_iff: "0 \<le> x \<Longrightarrow> (x < sqrt y) = (x\<^sup>2 < y)"
  by (metis real_sqrt_less_iff real_sqrt_abs abs_of_nonneg)

lemma sqrt_less_iff: "0 \<le> x \<Longrightarrow> (sqrt y < x) = (y < x\<^sup>2)"
  by (metis real_sqrt_less_iff real_sqrt_abs abs_of_nonneg)

lemmas eval_simps =
  newElement_def processElements_def speedStages_def andThen_def
  radiusPass_def straightPass_def clothoidPass_def minLengthPass_def vpDiffPass_def lengthPass_def
  radiusStep_def straightStep_def clothoidStep_def minLengthStep_def vpDiffStep_def lengthStep_def
  checkLength_def flankVp_def sameDirection_def vpInvalid_def
  getNearestRadius_def getNextRadius_def getPreviousRadius_def getDirectedNextRadius_def
  directedLoop.simps determineRadiusVp_def determineStraightVp_def determineMinClothoidLength_def
  straightVps_def clothoidMinLengths_def go_rem_def min_go_def max_go_def abs_go_def
  drivingSecondLength_def MaxVp_def MaxStraightVp_def EVpDiff_def EMinLength_def EMaxLength_def
  Let_def upt_rec less_sqrt_iff sqrt_less_iff

lemma example_run: "processElements example = Some (Inr example_result)"
  by (simp add: example_def example_result_def eval_simps)

lemma wide_curve_run: "processElements wide_curve = Some (Inr wide_curve_result)"
  by (simp add: wide_curve_def wide_curve_result_def eval_simps)


lemma head_curves_run: "processElements head_curves = Some (Inr head_curves_result)"
  by (simp add: head_curves_def head_curves_result_def eval_simps)

lemma head_wide_run: "processElements head_wide = Some (Inr head_wide_result)"
  by (simp add: head_wide_def head_wide_result_def eval_simps)

section \<open>The locator at the head of the sequence\<close>

text \<open>
  C1. The claim: the directed scan visits every in-bounds position \<open>i + d\<close>, \<open>i + 2d\<close>, ...
  and returns the first Radius element there; in particular a Radius element at index 0
  is found by a backward scan from any later position. The loop condition of the source is
  \<open>i > 0 && i < len(elements)\<close>, so the scan never reads index 0: on the two-element
  sequence Radius, Straight the backward scan from position 1 returns \<open>nil\<close> with distance
  0, although the element at index 0 is a Radius.
\<close>

theorem getDirectedNextRadius_skips_index_0:
  "Type ([\<lparr>Id' = 1, Type = Radius, Length = 50, Radius' = 200, Vp = 0, MinLength = 0,
            MaxLength = 0, AMin = 0, AMax = 0, Errors = 0\<rparr>,
          \<lparr>Id' = 2, Type = Straight, Length = 80, Radius' = 0, Vp = 0, MinLength = 0,
            MaxLength = 0, AMin = 0, AMax = 0, Errors = 0\<rparr>] ! 0) = Radius \<and>
   getDirectedNextRadius
     [\<lparr>Id' = 1, Type = Radius, Length = 50, Radius' = 200, Vp = 0, MinLength = 0,
        MaxLength = 0, AMin = 0, AMax = 0, Errors = 0\<rparr>,
      \<lparr>Id' = 2, Type = Straight, Length = 80, Radius' = 0, Vp = 0, MinLength = 0,
        MaxLength = 0, AMin = 0, AMax = 0, Errors = 0\<rparr>] 1 (- 1) = Some (None, 0)"
  by (simp add: getDirectedNextRadius_def directedLoop.simps)

section \<open>Radius elements: capped speed and clothoid bounds\<close>

text \<open>
  C3. After a run that completes, every Radius element carries the speed
  \<open>min(100, radiusToSpeed(|radius|))\<close>, and its clothoid bounds \<open>AMin\<close> and \<open>AMax\<close> are
  \<open>sqrt(|radius| * lClothMin)\<close> and \<open>sqrt(|radius| * lClothMin * 2)\<close> where \<open>lClothMin\<close> is
  the entry of the clothoid-length table at that capped speed. So a radius wider than 430
  has speed 100 and uses the entry 56, never the entries of 110, 120 or 130.
\<close>

theorem radius_speed_capped_before_clothoid_lookup:
  assumes "processElements es = Some (Inr fin)" and "i < length es"
      and "Type (es ! i) = Radius"
  shows "Vp (fin ! i) = min 100 (determineRadiusVp \<bar>Radius' (es ! i)\<bar>) \<and>
         (\<exists>lClothMin. clothoidMinLengths (Vp (fin ! i)) = Some lClothMin \<and>
            AMin (fin ! i) = sqrt (\<bar>Radius' (es ! i)\<bar> * lClothMin) \<and>
            AMax (fin ! i) = sqrt (\<bar>Radius' (es ! i)\<bar> * lClothMin * 2) \<and>
            (430 < \<bar>Radius' (es ! i)\<bar> \<longrightarrow> Vp (fin ! i) = 100 \<and> lClothMin = 56))"
proof -
  let ?r = "Radius' (es ! i)"
  let ?vp = "min_go MaxVp (determineRadiusVp ?r)"
  from radius_element_final[OF assms] obtain l where
    l: "clothoidMinLengths ?vp = Some l" "Vp (fin ! i) = ?vp"
       "AMin (fin ! i) = sqrt (\<bar>?r\<bar> * l)" "AMax (fin ! i) = sqrt (\<bar>?r\<bar> * l * 2)"
    by blast
  have wide: "?vp = 100 \<and> l = 56" if "430 < \<bar>?r\<bar>"
    using capped_speed_wide[OF that] l(1) clothoidMinLengths_100 by simp
  have "?vp = min 100 (determineRadiusVp \<bar>?r\<bar>)"
    by (simp add: min_go_min MaxVp_def determineRadiusVp_abs)
  with l wide show ?thesis by auto
qed

theorem radius_speed_capped_witness:
  "processElements wide_curve = Some (Inr wide_curve_result) \<and>
   1 < length wide_curve \<and> Type (wide_curve ! 1) = Radius \<and>
   430 < \<bar>Radius' (wide_curve ! 1)\<bar> \<and>
   Vp (wide_curve_result ! 1) = 100 \<and>
   clothoidMinLengths (Vp (wide_curve_result ! 1)) = Some 56 \<and>
   AMin (wide_curve_result ! 1) = sqrt (500 * 56) \<and>
   AMax (wide_curve_result ! 1) = sqrt (500 * 56 * 2)"
proof -
  have i: "1 < length wide_curve" and ty: "Type (wide_curve ! 1) = Radius"
    and w: "430 < \<bar>Radius' (wide_curve ! 1)\<bar>"
    by (simp_all add: wide_curve_def newElement_def)
  from radius_speed_capped_before_clothoid_lookup[OF wide_curve_run i ty] w
  have "Vp (wide_curve_result ! 1) = 100 \<and>
        clothoidMinLengths (Vp (wide_curve_result ! 1)) = Some 56 \<and>
        AMin (wide_curve_result ! 1) = sqrt (\<bar>Radius' (wide_curve ! 1)\<bar> * 56) \<and>
        AMax (wide_curve_result ! 1) = sqrt (\<bar>Radius' (wide_curve ! 1)\<bar> * 56 * 2)"
    by auto
  moreover have "\<bar>Radius' (wide_curve ! 1)\<bar> = 500"
    by (simp add: wide_curve_def newElement_def)
  ultimately show ?thesis using wide_curve_run i ty w
    by (simp add: clothoidMinLengths_100)
qed

section \<open>Straight elements, relative to the answers of the locator\<close>

text \<open>
  The three results of this section take the previous and the next Radius element of a
  Straight to be what \<open>getPreviousRadius\<close> and \<open>getNextRadius\<close> return. They say what
  the stages do with those answers, not which elements the sequence holds.

  After a run that completes, take a Straight element and the Radius elements that
  \<open>getPreviousRadius\<close> and \<open>getNextRadius\<close> return for it. With \<open>radiusVp\<close> the maximum of
  their speeds (a side without a Radius element contributes 0), \<open>addition = radiusVp mod 10\<close>
  and \<open>bucket = radiusVp - addition\<close>, the bucket has a breakpoint list, and the speed of the
  Straight is \<open>bucket + 10 * k + addition\<close> for the index \<open>k\<close> of the first breakpoint that is
  at least the length, and 100 when the length exceeds every breakpoint.
\<close>

lemma straight_speed_from_breakpoints:
  assumes "processElements es = Some (Inr fin)" and "i < length es"
      and "Type (es ! i) = Straight"
  shows "\<exists>p n radiusVp bucket addition bs.
           getPreviousRadius es (int i) = Some p \<and> getNextRadius es (int i) = Some n \<and>
           radiusVp = max (neighbourVp fin p) (neighbourVp fin n) \<and>
           addition = radiusVp mod 10 \<and> bucket = radiusVp - radiusVp mod 10 \<and>
           straightVps bucket = Some bs \<and>
           (\<forall>k<length bs. Length (es ! i) \<le> bs ! k \<and> (\<forall>m<k. bs ! m < Length (es ! i)) \<longrightarrow>
              Vp (fin ! i) = bucket + 10 * int k + addition) \<and>
           ((\<forall>b\<in>set bs. b < Length (es ! i)) \<longrightarrow> Vp (fin ! i) = 100)"
proof -
  from straight_element_final[OF assms] obtain p n where
    pn: "getPreviousRadius es (int i) = Some p" "getNextRadius es (int i) = Some n"
        "0 \<le> max (neighbourVp fin p) (neighbourVp fin n)"
        "determineStraightVp (max (neighbourVp fin p) (neighbourVp fin n)) (Length (es ! i))
           = Inr (Vp (fin ! i))"
    by blast
  from determineStraightVp_breakpoints[OF pn(3,4)] pn(1,2) show ?thesis by blast
qed

lemma straight_speed_example:
  "processElements example = Some (Inr example_result) \<and>
   2 < length example \<and> Type (example ! 2) = Straight \<and>
   8 < length example \<and> Type (example ! 8) = Straight \<and>
   getPreviousRadius example 2 = Some (Some 1) \<and> getNextRadius example 2 = Some (Some 3) \<and>
   max (neighbourVp example_result (Some 1)) (neighbourVp example_result (Some 3)) = 45 \<and>
   straightVps 40 = Some [30, 100, 180, 270, 380, 500] \<and>
   Vp (example_result ! 2) = 40 + 10 * 1 + 5 \<and>
   getPreviousRadius example 8 = Some (Some 5) \<and> getNextRadius example 8 = Some None \<and>
   max (neighbourVp example_result (Some 5)) (neighbourVp example_result None) = 90 \<and>
   straightVps 90 = Some [70] \<and>
   Vp (example_result ! 8) = 100"
proof -
  have h: "2 < length example" "Type (example ! 2) = Straight"
          "8 < length example" "Type (example ! 8) = Straight"
    by (simp_all add: example_def newElement_def)
  have loc: "getPreviousRadius example 2 = Some (Some 1)" "getNextRadius example 2 = Some (Some 3)"
    "getPreviousRadius example 8 = Some (Some 5)" "getNextRadius example 8 = Some None"
    by (simp_all add: example_def eval_simps)
  have tab: "straightVps 40 = Some [30, 100, 180, 270, 380, 500]" "straightVps 90 = Some [70]"
    by (simp_all add: straightVps_def)
  have nb: "max (neighbourVp example_result (Some 1)) (neighbourVp example_result (Some 3)) = 45"
    "max (neighbourVp example_result (Some 5)) (neighbourVp example_result None) = 90"
    by (simp_all add: neighbourVp_def example_result_def)
  from straight_speed_from_breakpoints[OF example_run h(1,2)] loc(1,2) nb(1) tab(1)
  have "\<forall>k<length [30, 100, 180, 270, 380, 500 :: real].
          Length (example ! 2) \<le> [30, 100, 180, 270, 380, 500] ! k \<and>
          (\<forall>m<k. [30, 100, 180, 270, 380, 500] ! m < Length (example ! 2)) \<longrightarrow>
          Vp (example_result ! 2) = 40 + 10 * int k + 5"
    by auto
  from this[rule_format, of 1] have v2: "Vp (example_result ! 2) = 40 + 10 * 1 + 5"
    by (simp add: example_def newElement_def)
  from straight_speed_from_breakpoints[OF example_run h(3,4)] loc(3,4) nb(2) tab(2)
  have "(\<forall>b\<in>set [70 :: real]. b < Length (example ! 8)) \<longrightarrow> Vp (example_result ! 8) = 100"
    by auto
  then have v8: "Vp (example_result ! 8) = 100"
    by (simp add: example_def newElement_def)
  from example_run h loc nb tab v2 v8 show ?thesis by simp
qed

text \<open>
  After a run that completes, the minimum length of a Straight element is its speed
  divided by 3.6 times 1 second, and times 5 seconds exactly when \<open>getPreviousRadius\<close> and
  \<open>getNextRadius\<close> both return a Radius element and the two radii are both negative or both
  positive. Opposite signs, a side without a Radius element and a radius of zero keep the
  1-second minimum.
\<close>

lemma straight_min_length_escalation:
  assumes "processElements es = Some (Inr fin)" and "i < length es"
      and "Type (es ! i) = Straight"
  shows "\<exists>p n. getPreviousRadius es (int i) = Some p \<and> getNextRadius es (int i) = Some n \<and>
           MinLength (fin ! i) =
             (if \<exists>a b. p = Some a \<and> n = Some b \<and>
                   (Radius' (es ! a) < 0 \<and> Radius' (es ! b) < 0 \<or>
                    0 < Radius' (es ! a) \<and> 0 < Radius' (es ! b))
              then real_of_int (Vp (fin ! i)) / 3.6 * 5
              else real_of_int (Vp (fin ! i)) / 3.6 * 1)"
proof -
  from straight_length_final[OF assms] obtain p n where
    pn: "getPreviousRadius es (int i) = Some p" "getNextRadius es (int i) = Some n"
        "MinLength (fin ! i) =
           (if sameDirection es p n then drivingSecondLength (Vp (fin ! i)) 5
            else drivingSecondLength (Vp (fin ! i)) 1)"
    by blast
  have "MinLength (fin ! i) =
          (if \<exists>a b. p = Some a \<and> n = Some b \<and>
                (Radius' (es ! a) < 0 \<and> Radius' (es ! b) < 0 \<or>
                 0 < Radius' (es ! a) \<and> 0 < Radius' (es ! b))
           then real_of_int (Vp (fin ! i)) / 3.6 * 5
           else real_of_int (Vp (fin ! i)) / 3.6 * 1)"
    by (simp only: pn(3) sameDirection_words drivingSecondLength_def of_int_numeral of_int_1)
  with pn(1,2) show ?thesis by blast
qed

lemma straight_min_length_example:
  "processElements example = Some (Inr example_result) \<and>
   2 < length example \<and> Type (example ! 2) = Straight \<and>
   getPreviousRadius example 2 = Some (Some 1) \<and> getNextRadius example 2 = Some (Some 3) \<and>
   Radius' (example ! 1) < 0 \<and> Radius' (example ! 3) < 0 \<and>
   MinLength (example_result ! 2) = real_of_int (Vp (example_result ! 2)) / 3.6 * 5 \<and>
   0 < length example \<and> Type (example ! 0) = Straight \<and>
   getPreviousRadius example 0 = Some None \<and> getNextRadius example 0 = Some (Some 1) \<and>
   MinLength (example_result ! 0) = real_of_int (Vp (example_result ! 0)) / 3.6 * 1"
proof -
  have h: "2 < length example" "Type (example ! 2) = Straight"
          "0 < length example" "Type (example ! 0) = Straight"
          "Radius' (example ! 1) < 0" "Radius' (example ! 3) < 0"
    by (simp_all add: example_def newElement_def)
  have loc: "getPreviousRadius example 2 = Some (Some 1)" "getNextRadius example 2 = Some (Some 3)"
    "getPreviousRadius example 0 = Some None" "getNextRadius example 0 = Some (Some 1)"
    by (simp_all add: example_def eval_simps)
  from straight_min_length_escalation[OF example_run h(1,2)] loc(1,2) h(5,6)
  have m2: "MinLength (example_result ! 2) = real_of_int (Vp (example_result ! 2)) / 3.6 * 5"
    by auto
  from straight_min_length_escalation[OF example_run h(3,4)] loc(3,4)
  have m0: "MinLength (example_result ! 0) = real_of_int (Vp (example_result ! 0)) / 3.6 * 1"
    by auto
  from example_run h loc m2 m0 show ?thesis by simp
qed

text \<open>
  A run ends with the fatal error of \<open>determineStraightVp\<close> exactly when some Straight
  element has a speed bucket \<open>radiusVp - radiusVp mod 10\<close> outside 40, 50, 60, 70, 80, 90,
  where \<open>radiusVp\<close> is the maximum of the capped speeds of the Radius elements that
  \<open>getPreviousRadius\<close> and \<open>getNextRadius\<close> return (0 for a side without one). In
  particular \<open>radiusVp = 100\<close>, the capped speed of every radius wider than 350, and
  \<open>radiusVp = 0\<close> are fatal.
\<close>

lemma straight_lookup_fatal_on_unpopulated_bucket:
  "((\<exists>b. processElements es = Some (Inl (VpNotFound b))) =
      (\<exists>i p n. i < length es \<and> Type (es ! i) = Straight \<and>
         getPreviousRadius es (int i) = Some p \<and> getNextRadius es (int i) = Some n \<and>
         max (neighbourSpeed es p) (neighbourSpeed es n)
           - max (neighbourSpeed es p) (neighbourSpeed es n) mod 10
           \<notin> {40, 50, 60, 70, 80, 90})) \<and>
   determineStraightVp 100 len = Inl (VpNotFound 100) \<and>
   determineStraightVp 0 len = Inl (VpNotFound 0) \<and>
   (350 < \<bar>r\<bar> \<longrightarrow> min 100 (determineRadiusVp \<bar>r\<bar>) = 100)"
proof -
  from radiusPass_success obtain e1 where e1: "radiusPass es = Some (Inr e1)" by blast
  have b1: "keeps baseView es e1"
    by (rule radiusPass_keeps[OF _ e1]) (simp add: baseView_def)
  have len: "length e1 = length es" using b1 by (rule keeps_length)
  have ty: "map Type e1 = map Type es" using b1 by (rule keeps_baseView_Type)
  have A: "(\<exists>b. processElements es = Some (Inl (VpNotFound b))) =
        (\<exists>x. straightPass e1 = Some (Inl x))"
  proof
    assume "\<exists>b. processElements es = Some (Inl (VpNotFound b))"
    then obtain b where "processElements es = Some (Inl (VpNotFound b))" ..
    with processElements_VpNotFound[OF e1, of b]
    have "straightPass e1 = Some (Inl (VpNotFound b))" by simp
    then show "\<exists>x. straightPass e1 = Some (Inl x)" ..
  next
    assume "\<exists>x. straightPass e1 = Some (Inl x)"
    then obtain x where x: "straightPass e1 = Some (Inl x)" ..
    from straightPass_Inl_kind[OF x] obtain b where "x = VpNotFound b" ..
    with x processElements_VpNotFound[OF e1, of b]
    have "processElements es = Some (Inl (VpNotFound b))" by simp
    then show "\<exists>b. processElements es = Some (Inl (VpNotFound b))" ..
  qed
  have pe: "getPreviousRadius e1 pos = getPreviousRadius es pos" for pos
    using ty by (rule getPreviousRadius_cong)
  have ne: "getNextRadius e1 pos = getNextRadius es pos" for pos
    using ty by (rule getNextRadius_cong)
  have C: "(i < length e1 \<and> Type (e1 ! i) = Straight \<and>
        getPreviousRadius e1 (int i) = Some p \<and> getNextRadius e1 (int i) = Some n \<and>
        flankVp e1 p n - flankVp e1 p n mod 10 \<notin> {40, 50, 60, 70, 80, 90}) =
       (i < length es \<and> Type (es ! i) = Straight \<and>
         getPreviousRadius es (int i) = Some p \<and> getNextRadius es (int i) = Some n \<and>
         max (neighbourSpeed es p) (neighbourSpeed es n)
           - max (neighbourSpeed es p) (neighbourSpeed es n) mod 10
           \<notin> {40, 50, 60, 70, 80, 90})" (is "?l = ?r") for i p n
  proof (cases "i < length es \<and> getPreviousRadius es (int i) = Some p \<and>
                getNextRadius es (int i) = Some n")
    case False
    then show ?thesis unfolding len pe ne by blast
  next
    case True
    then have t: "Type (e1 ! i) = Type (es ! i)"
      and f: "flankVp e1 p n = max (neighbourSpeed es p) (neighbourSpeed es n)"
      using keeps_baseView_nth(1)[OF b1, of i] flankVp_after_radiusPass[OF e1, of "int i" p n]
      by simp_all
    show ?thesis unfolding len pe ne t f ..
  qed
  have main: "(\<exists>b. processElements es = Some (Inl (VpNotFound b))) =
      (\<exists>i p n. i < length es \<and> Type (es ! i) = Straight \<and>
         getPreviousRadius es (int i) = Some p \<and> getNextRadius es (int i) = Some n \<and>
         max (neighbourSpeed es p) (neighbourSpeed es n)
           - max (neighbourSpeed es p) (neighbourSpeed es n) mod 10
           \<notin> {40, 50, 60, 70, 80, 90})"
    unfolding A straightPass_fatal_iff C ..
  have "determineStraightVp 100 len = Inl (VpNotFound 100)"
       "determineStraightVp 0 len = Inl (VpNotFound 0)"
    by (simp_all add: determineStraightVp_def straightVps_def go_rem_def)
  moreover have "min 100 (determineRadiusVp \<bar>r\<bar>) = 100" if "350 < \<bar>r\<bar>"
    using capped_speed_over_350[OF that] by (simp add: min_go_min MaxVp_def determineRadiusVp_abs)
  ultimately show ?thesis using main by blast
qed

lemma straight_lookup_fatal_example:
  "2 < length fatal_wide \<and> Type (fatal_wide ! 2) = Straight \<and>
   getPreviousRadius fatal_wide 2 = Some (Some 1) \<and> getNextRadius fatal_wide 2 = Some None \<and>
   350 < \<bar>Radius' (fatal_wide ! 1)\<bar> \<and>
   max (neighbourSpeed fatal_wide (Some 1)) (neighbourSpeed fatal_wide None) = 100 \<and>
   (\<exists>b. processElements fatal_wide = Some (Inl (VpNotFound b))) \<and>
   processElements fatal_wide = Some (Inl (VpNotFound 100)) \<and>
   processElements [newElement 1 Straight 10 0] = Some (Inl (VpNotFound 0))"
proof -
  have h: "2 < length fatal_wide" "Type (fatal_wide ! 2) = Straight"
    "350 < \<bar>Radius' (fatal_wide ! 1)\<bar>"
    by (simp_all add: fatal_wide_def newElement_def)
  have loc: "getPreviousRadius fatal_wide 2 = Some (Some 1)"
    "getNextRadius fatal_wide 2 = Some None"
    by (simp_all add: fatal_wide_def eval_simps)
  have nb: "max (neighbourSpeed fatal_wide (Some 1)) (neighbourSpeed fatal_wide None) = 100"
    using straight_lookup_fatal_on_unpopulated_bucket[of fatal_wide 0 "Radius' (fatal_wide ! 1)",
            THEN conjunct2, THEN conjunct2, THEN conjunct2] h(3)
    by (simp add: neighbourSpeed_def)
  have "\<exists>i p n. i < length fatal_wide \<and> Type (fatal_wide ! i) = Straight \<and>
         getPreviousRadius fatal_wide (int i) = Some p \<and>
         getNextRadius fatal_wide (int i) = Some n \<and>
         max (neighbourSpeed fatal_wide p) (neighbourSpeed fatal_wide n)
           - max (neighbourSpeed fatal_wide p) (neighbourSpeed fatal_wide n) mod 10
           \<notin> {40, 50, 60, 70, 80, 90}"
    using h(1,2) loc nb by (intro exI[of _ 2] exI[of _ "Some 1"] exI[of _ None]) simp
  then have ex: "\<exists>b. processElements fatal_wide = Some (Inl (VpNotFound b))"
    by (simp only: straight_lookup_fatal_on_unpopulated_bucket[of fatal_wide 0 0, THEN conjunct1])
  have run: "processElements fatal_wide = Some (Inl (VpNotFound 100))"
    "processElements [newElement 1 Straight 10 0] = Some (Inl (VpNotFound 0))"
    by (simp_all add: fatal_wide_def eval_simps)
  from h loc nb ex run show ?thesis by simp
qed

section \<open>Straight elements after a curve at the head of the sequence\<close>

text \<open>
  C2. The claim: the speed of a Straight is \<open>bucket + 10 * k + addition\<close>, with \<open>radiusVp\<close>
  the maximum of the speeds of the previous and the next Radius element. In the sequence
  Radius -200, Straight of length 80, Radius -150 the previous Radius element has speed 80
  and the next one 75, so \<open>radiusVp = 80\<close>, the bucket 80 has the breakpoints 60 and 180,
  the first one at least 80 has index 1, and the claim gives \<open>80 + 10 * 1 + 0 = 90\<close>. The
  backward scan does not read index 0, \<open>getPreviousRadius\<close> returns \<open>nil\<close>, \<open>radiusVp\<close> is
  75, and the Straight is stored with speed \<open>70 + 10 * 1 + 5 = 85\<close>.
\<close>

theorem straight_speed_ignores_curve_at_head:
  "processElements head_curves = Some (Inr head_curves_result) \<and>
   Type (head_curves ! 0) = Radius \<and> Type (head_curves ! 1) = Straight \<and>
   Type (head_curves ! 2) = Radius \<and>
   getPreviousRadius head_curves 1 = Some None \<and>
   Vp (head_curves_result ! 0) = 80 \<and> Vp (head_curves_result ! 2) = 75 \<and>
   max (Vp (head_curves_result ! 0)) (Vp (head_curves_result ! 2)) = 80 \<and>
   straightVps (80 - 80 mod 10) = Some [60, 180] \<and> Length (head_curves ! 1) = 80 \<and>
   Vp (head_curves_result ! 1) = 85 \<and>
   Vp (head_curves_result ! 1) \<noteq> (80 - 80 mod 10) + 10 * 1 + 80 mod 10"
proof -
  have "getPreviousRadius head_curves 1 = Some None"
    by (simp add: head_curves_def eval_simps)
  moreover have "straightVps (80 - 80 mod 10) = Some [60, 180]"
    by (simp add: straightVps_def)
  ultimately show ?thesis using head_curves_run
    by (simp add: head_curves_def head_curves_result_def newElement_def)
qed

text \<open>
  C8. The claim: the minimum length of a Straight is the one of 5 seconds exactly when a
  previous and a next Radius element exist and their radii have the same strict sign. In
  the same sequence both exist, with the radii -200 and -150, and the Straight is stored
  with the minimum length of 1 second, \<open>85 / 3.6\<close>: \<open>getPreviousRadius\<close> returns \<open>nil\<close> for
  it.
\<close>

theorem straight_min_length_ignores_curve_at_head:
  "processElements head_curves = Some (Inr head_curves_result) \<and>
   Type (head_curves ! 0) = Radius \<and> Type (head_curves ! 1) = Straight \<and>
   Type (head_curves ! 2) = Radius \<and>
   Radius' (head_curves ! 0) < 0 \<and> Radius' (head_curves ! 2) < 0 \<and>
   getPreviousRadius head_curves 1 = Some None \<and>
   getNextRadius head_curves 1 = Some (Some 2) \<and>
   MinLength (head_curves_result ! 1) = real_of_int (Vp (head_curves_result ! 1)) / 3.6 * 1 \<and>
   MinLength (head_curves_result ! 1) \<noteq> real_of_int (Vp (head_curves_result ! 1)) / 3.6 * 5"
proof -
  have "getPreviousRadius head_curves 1 = Some None"
    "getNextRadius head_curves 1 = Some (Some 2)"
    by (simp_all add: head_curves_def eval_simps)
  then show ?thesis using head_curves_run
    by (simp add: head_curves_def head_curves_result_def newElement_def)
qed

text \<open>
  C6. The claim: the run ends with the fatal error of the breakpoint lookup exactly when the
  bucket of a Straight is none of 40, 50, 60, 70, 80, 90, so in particular when a flanking
  Radius element has speed 100. In the sequence Radius 400, Straight, Radius 200 the Radius
  element before the Straight has speed 100, and the run completes: the backward scan does
  not read index 0, \<open>radiusVp\<close> is the 80 of the next curve and the Straight is stored with
  speed 90. In the sequence Radius 200, Straight the only flank has speed 80, whose bucket
  has breakpoints, and the run ends with the fatal error for the bucket 0.
\<close>

theorem straight_lookup_ignores_curve_at_head:
  "Type (head_wide ! 0) = Radius \<and> 350 < \<bar>Radius' (head_wide ! 0)\<bar> \<and>
   Type (head_wide ! 1) = Straight \<and>
   getPreviousRadius head_wide 1 = Some None \<and>
   processElements head_wide = Some (Inr head_wide_result) \<and>
   Vp (head_wide_result ! 0) = 100 \<and> straightVps 100 = None \<and>
   Vp (head_wide_result ! 1) = 90 \<and>
   min 100 (determineRadiusVp 200) = 80 \<and> straightVps 80 = Some [60, 180] \<and>
   processElements [newElement 1 Radius 50 200, newElement 2 Straight 10 0] =
     Some (Inl (VpNotFound 0))"
proof -
  have "getPreviousRadius head_wide 1 = Some None"
    by (simp add: head_wide_def eval_simps)
  moreover have "straightVps 100 = None" "straightVps 80 = Some [60, 180]"
    by (simp_all add: straightVps_def)
  moreover have "min 100 (determineRadiusVp 200) = 80"
    by (simp add: determineRadiusVp_def)
  moreover have "processElements [newElement 1 Radius 50 200, newElement 2 Straight 10 0] =
     Some (Inl (VpNotFound 0))"
    by (simp add: eval_simps)
  ultimately show ?thesis using head_wide_run
    by (simp add: head_wide_def head_wide_result_def newElement_def)
qed

section \<open>Clothoid elements: speed, bounds and length flags\<close>




section \<open>Speed difference of adjacent elements\<close>

text \<open>
  C5. After a run that completes, an element read with no flag carries the flag for the
  speed difference exactly when it belongs to an adjacent pair \<open>(j, j + 1)\<close> or \<open>(j - 1, j)\<close>
  whose speeds violate the rule: a difference of at least 20 when one of the two speeds is
  100, a difference above 20 otherwise. So both elements of a violating pair are flagged.
  The pairs 100, 79 and 90, 69 violate the rule; 100, 81 and 90, 70 do not.
\<close>

theorem vp_difference_flags_both_elements:
  assumes "processElements es = Some (Inr fin)" and "j < length es"
      and "Errors (es ! j) = 0"
  shows "((Errors (fin ! j) AND EVpDiff \<noteq> 0) =
            ((j + 1 < length es \<and> speedGapViolation (Vp (fin ! j)) (Vp (fin ! (j + 1)))) \<or>
             (0 < j \<and> speedGapViolation (Vp (fin ! (j - 1))) (Vp (fin ! j))))) \<and>
         speedGapViolation 100 79 \<and> \<not> speedGapViolation 100 81 \<and>
         speedGapViolation 90 69 \<and> \<not> speedGapViolation 90 70"
proof -
  from assms(1) obtain e1 e2 e3 e4 e5 where
    st: "vpDiffPass e4 = Some (Inr e5)" "lengthPass e5 = Some (Inr fin)"
      and b: "keeps baseView es e1" "keeps baseView e1 e2" "keeps baseView e2 e3"
             "keeps baseView e3 e4"
      and vp: "keeps Vp e4 e5" "keeps Vp e5 fin"
    by (rule processElements_frames)
  have b4: "keeps baseView es e4" using b by (blast intro: keeps_trans)
  have len: "length e4 = length es" "length e5 = length e4"
    using b4 vp(1) by (auto dest: keeps_length)
  from assms(2) len have j4: "j < length e4" and j5: "j < length e5" by simp_all
  have v: "Vp (fin ! k) = Vp (e4 ! k)" if "k < length es" for k
    using keeps_nth[OF vp(1), of k] keeps_nth[OF vp(2), of k] that len by simp
  from keeps_baseView_nth(4)[OF b4 assms(2)] assms(3) have e0: "Errors (e4 ! j) = 0" by simp
  let ?c = "(j + 1 < length es \<and> vpInvalid (Vp (e4 ! j)) (Vp (e4 ! (j + 1)))) \<or>
            (0 < j \<and> vpInvalid (Vp (e4 ! (j - 1))) (Vp (e4 ! j)))"
  from vpDiffPass_at[OF st(1) j4] len
  have "e5 ! j = (if ?c then (e4 ! j)\<lparr>Errors := Errors (e4 ! j) OR EVpDiff\<rparr> else e4 ! j)"
    by simp
  with e0 have "bit (Errors (e5 ! j)) 0 = ?c" by (simp add: flag_bits)
  moreover from lengthPass_at[OF st(2) j5]
  have "bit (Errors (fin ! j)) 0 = bit (Errors (e5 ! j)) 0" by (simp add: checkLength_bits)
  moreover have "Vp (e4 ! j) = Vp (fin ! j)" using v[of j] assms(2) by simp
  moreover have "Vp (e4 ! (j + 1)) = Vp (fin ! (j + 1))" if "j + 1 < length es"
    using v[OF that] by simp
  moreover have "Vp (e4 ! (j - 1)) = Vp (fin ! (j - 1))"
    using v[of "j - 1"] assms(2) by simp
  ultimately have "(Errors (fin ! j) AND EVpDiff \<noteq> 0) =
            ((j + 1 < length es \<and> speedGapViolation (Vp (fin ! j)) (Vp (fin ! (j + 1)))) \<or>
             (0 < j \<and> speedGapViolation (Vp (fin ! (j - 1))) (Vp (fin ! j))))"
    by (auto simp: EVpDiff_test vpInvalid_words)
  then show ?thesis by (simp add: speedGapViolation_def)
qed

theorem vp_difference_witness:
  "processElements example = Some (Inr example_result) \<and>
   3 < length example \<and> Errors (example ! 3) = 0 \<and>
   4 < length example \<and> Errors (example ! 4) = 0 \<and>
   2 < length example \<and> Errors (example ! 2) = 0 \<and>
   speedGapViolation (Vp (example_result ! 3)) (Vp (example_result ! 4)) \<and>
   Errors (example_result ! 3) AND EVpDiff \<noteq> 0 \<and>
   Errors (example_result ! 4) AND EVpDiff \<noteq> 0 \<and>
   \<not> speedGapViolation (Vp (example_result ! 1)) (Vp (example_result ! 2)) \<and>
   \<not> speedGapViolation (Vp (example_result ! 2)) (Vp (example_result ! 3)) \<and>
   Errors (example_result ! 2) AND EVpDiff = 0"
proof -
  have h: "3 < length example" "Errors (example ! 3) = 0"
          "4 < length example" "Errors (example ! 4) = 0"
          "2 < length example" "Errors (example ! 2) = 0"
    by (simp_all add: example_def newElement_def)
  have g: "speedGapViolation (Vp (example_result ! 3)) (Vp (example_result ! 4))"
    "\<not> speedGapViolation (Vp (example_result ! 1)) (Vp (example_result ! 2))"
    "\<not> speedGapViolation (Vp (example_result ! 2)) (Vp (example_result ! 3))"
    by (simp_all add: example_result_def speedGapViolation_def)
  have len: "length example = 9" by (simp add: example_def)
  from vp_difference_flags_both_elements[OF example_run h(1,2)] g(1) len
  have a: "Errors (example_result ! 3) AND EVpDiff \<noteq> 0" by simp
  from vp_difference_flags_both_elements[OF example_run h(3,4)] g(1) len
  have b: "Errors (example_result ! 4) AND EVpDiff \<noteq> 0" by simp
  from vp_difference_flags_both_elements[OF example_run h(5,6)] g(2,3) len
  have c: "Errors (example_result ! 2) AND EVpDiff = 0" by simp
  from example_run h g a b c show ?thesis by simp
qed

section \<open>The nearest Radius element\<close>

text \<open>
  C7. For every position both directed scans return. \<open>getNearestRadius\<close> returns the hit of
  the backward scan when its distance is strictly smaller than that of the forward scan,
  the hit of the forward scan otherwise (so the next element wins a tie), the only hit when
  one scan found none, and ends the run when neither scan found a Radius element. A hit lies
  at the reported distance from the position.
\<close>

theorem nearestRadius_picks_smaller_distance:
  "\<exists>previous previousDistance next nextDistance.
     getDirectedNextRadius elements pos (- 1) = Some (previous, previousDistance) \<and>
     getDirectedNextRadius elements pos 1 = Some (next, nextDistance) \<and>
     (\<forall>p. previous = Some p \<longrightarrow> int p = pos - previousDistance \<and> 0 < previousDistance) \<and>
     (\<forall>n. next = Some n \<longrightarrow> int n = pos + nextDistance \<and> 0 < nextDistance) \<and>
     getNearestRadius elements pos =
       Some (case (previous, next) of
               (Some p, Some n) \<Rightarrow> if previousDistance < nextDistance then Inr p else Inr n
             | (Some p, None) \<Rightarrow> Inr p
             | (None, Some n) \<Rightarrow> Inr n
             | (None, None) \<Rightarrow> Inl NoNearestRadius)"
proof -
  from getDirectedNextRadius_total[of "- 1" elements pos] obtain p pd where
    p: "getDirectedNextRadius elements pos (- 1) = Some (p, pd)" by auto
  from getDirectedNextRadius_total[of 1 elements pos] obtain n nd where
    n: "getDirectedNextRadius elements pos 1 = Some (n, nd)" by auto
  have "int a = pos - pd \<and> 0 < pd" if "p = Some a" for a
    using getDirectedNextRadius_hit[of elements pos "- 1" a pd] p that by simp
  moreover have "int b = pos + nd \<and> 0 < nd" if "n = Some b" for b
    using getDirectedNextRadius_hit[of elements pos 1 b nd] n that by simp
  moreover have "getNearestRadius elements pos =
       Some (case (p, n) of
               (Some p, Some n) \<Rightarrow> if pd < nd then Inr p else Inr n
             | (Some p, None) \<Rightarrow> Inr p
             | (None, Some n) \<Rightarrow> Inr n
             | (None, None) \<Rightarrow> Inl NoNearestRadius)"
    using p n by (simp add: getNearestRadius_def split: option.splits)
  ultimately show ?thesis using p n by blast
qed

theorem nearestRadius_witness:
  "getDirectedNextRadius two_curves 2 (- 1) = Some (Some 1, 1) \<and>
   getDirectedNextRadius two_curves 2 1 = Some (Some 4, 2) \<and>
   getNearestRadius two_curves 2 = Some (Inr 1) \<and>
   getDirectedNextRadius two_curves 3 (- 1) = Some (Some 1, 2) \<and>
   getDirectedNextRadius two_curves 3 1 = Some (Some 4, 1) \<and>
   getNearestRadius two_curves 3 = Some (Inr 4) \<and>
   getDirectedNextRadius example 4 (- 1) = Some (Some 3, 1) \<and>
   getDirectedNextRadius example 4 1 = Some (Some 5, 1) \<and>
   getNearestRadius example 4 = Some (Inr 5) \<and>
   getDirectedNextRadius example 6 (- 1) = Some (Some 5, 1) \<and>
   getDirectedNextRadius example 6 1 = Some (None, 2) \<and>
   getNearestRadius example 6 = Some (Inr 5) \<and>
   getDirectedNextRadius example 0 (- 1) = Some (None, 0) \<and>
   getDirectedNextRadius example 0 1 = Some (Some 1, 1) \<and>
   getNearestRadius example 0 = Some (Inr 1) \<and>
   getDirectedNextRadius [newElement 1 Clothoid 10 0] 0 (- 1) = Some (None, 0) \<and>
   getDirectedNextRadius [newElement 1 Clothoid 10 0] 0 1 = Some (None, 0) \<and>
   getNearestRadius [newElement 1 Clothoid 10 0] 0 = Some (Inl NoNearestRadius) \<and>
   processElements [newElement 1 Clothoid 10 0] = Some (Inl NoNearestRadius)"
proof -
  have s: "getDirectedNextRadius two_curves 2 (- 1) = Some (Some 1, 1)"
    "getDirectedNextRadius two_curves 2 1 = Some (Some 4, 2)"
    "getDirectedNextRadius two_curves 3 (- 1) = Some (Some 1, 2)"
    "getDirectedNextRadius two_curves 3 1 = Some (Some 4, 1)"
    "getDirectedNextRadius example 4 (- 1) = Some (Some 3, 1)"
    "getDirectedNextRadius example 4 1 = Some (Some 5, 1)"
    "getDirectedNextRadius example 6 (- 1) = Some (Some 5, 1)"
    "getDirectedNextRadius example 6 1 = Some (None, 2)"
    "getDirectedNextRadius example 0 (- 1) = Some (None, 0)"
    "getDirectedNextRadius example 0 1 = Some (Some 1, 1)"
    "getDirectedNextRadius [newElement 1 Clothoid 10 0] 0 (- 1) = Some (None, 0)"
    "getDirectedNextRadius [newElement 1 Clothoid 10 0] 0 1 = Some (None, 0)"
    by (simp_all add: two_curves_def example_def newElement_def getDirectedNextRadius_def
          directedLoop.simps)
  from nearestRadius_picks_smaller_distance[of two_curves 2] s(1,2)
  have a: "getNearestRadius two_curves 2 = Some (Inr 1)" by auto
  from nearestRadius_picks_smaller_distance[of two_curves 3] s(3,4)
  have b: "getNearestRadius two_curves 3 = Some (Inr 4)" by auto
  from nearestRadius_picks_smaller_distance[of example 4] s(5,6)
  have c: "getNearestRadius example 4 = Some (Inr 5)" by auto
  from nearestRadius_picks_smaller_distance[of example 6] s(7,8)
  have d: "getNearestRadius example 6 = Some (Inr 5)" by auto
  from nearestRadius_picks_smaller_distance[of example 0] s(9,10)
  have e: "getNearestRadius example 0 = Some (Inr 1)" by auto
  from nearestRadius_picks_smaller_distance[of "[newElement 1 Clothoid 10 0]" 0] s(11,12)
  have f: "getNearestRadius [newElement 1 Clothoid 10 0] 0 = Some (Inl NoNearestRadius)" by auto
  have g: "processElements [newElement 1 Clothoid 10 0] = Some (Inl NoNearestRadius)"
    by (simp add: eval_simps)
  from s a b c d e f g show ?thesis by simp
qed

section \<open>The mean speed that is reported\<close>

text \<open>
  C9, as the code has it. The mean speed is the sum of \<open>Length * Vp\<close> divided by the sum of
  the lengths when that sum is not zero. When the total length is zero the division is
  carried out all the same and its result, NaN (or an infinity when the weighted sum is not
  zero), is what is printed.
\<close>

theorem meanVp_weighted_average:
  "meanVp es =
     (if sum_list (map Length es) \<noteq> 0
      then Finite (sum_list (map (\<lambda>e. Length e * real_of_int (Vp e)) es) / sum_list (map Length es))
      else if sum_list (map (\<lambda>e. Length e * real_of_int (Vp e)) es) = 0 then NaN
      else if 0 < sum_list (map (\<lambda>e. Length e * real_of_int (Vp e)) es) then PosInf
      else NegInf)"
  by (simp add: meanVp_def meanLoop_sums float_div_def)

theorem meanVp_witness:
  "meanVp [\<lparr>Id' = 1, Type = Radius, Length = 100, Radius' = 50, Vp = 50, MinLength = 0,
             MaxLength = 0, AMin = 0, AMax = 0, Errors = 0\<rparr>,
           \<lparr>Id' = 2, Type = Radius, Length = 200, Radius' = 200, Vp = 80, MinLength = 0,
             MaxLength = 0, AMin = 0, AMax = 0, Errors = 0\<rparr>] = Finite 70"
  using meanVp_weighted_average[of
          "[\<lparr>Id' = 1, Type = Radius, Length = 100, Radius' = 50, Vp = 50, MinLength = 0,
             MaxLength = 0, AMin = 0, AMax = 0, Errors = 0\<rparr>,
           \<lparr>Id' = 2, Type = Radius, Length = 200, Radius' = 200, Vp = 80, MinLength = 0,
             MaxLength = 0, AMin = 0, AMax = 0, Errors = 0\<rparr>]"]
  by simp

text \<open>
  C9, as stated, asks for a zero total length to be reported by a value of its own instead
  of a NaN. A run on a single Radius element of length 0 reaches the mean and yields NaN.
\<close>

theorem meanVp_zero_length_is_NaN:
  "Length (newElement 1 Radius 0 100) = 0 \<and>
   runMeanVp [newElement 1 Radius 0 100] = Some (Inr NaN)"
  by (simp add: runMeanVp_def meanVp_def float_div_def eval_simps)

section \<open>The Errors column\<close>

text \<open>
  C10. The claim: the Errors cell of a row names exactly the flags set on the element, so
  an element whose only flag is the one for exceeding the maximum length shows that flag.
  \<open>stringifyErrors\<close> tests \<open>EVpDiff\<close> and \<open>EMinLength\<close> only. In the sample alignment the
  Clothoid at index 6 is longer than its maximum length and carries \<open>EMaxLength\<close> alone: it
  gets a row in the table of flagged elements, and its Errors cell is empty.
\<close>

theorem above_max_length_not_reported:
  "processElements example = Some (Inr example_result) \<and>
   Length (example_result ! 6) > MaxLength (example_result ! 6) \<and>
   Errors (example_result ! 6) = EMaxLength \<and> EMaxLength \<noteq> 0 \<and>
   stringifyErrors (Errors (example_result ! 6)) = [] \<and>
   map_option (map (\<lambda>row. row ! 8)) (reportTable False example_result) =
     Some [Text ''Errors'', Text ''VpDiff, MinLength'', Text ''VpDiff'', Text [],
           Text ''MinLength'']"
proof -
  have "Length (example_result ! 6) > MaxLength (example_result ! 6)"
    by (simp add: example_result_def sqrt_less_iff)
  moreover have "Errors (example_result ! 6) = EMaxLength" "EMaxLength \<noteq> 0"
    by (simp_all add: example_result_def EMaxLength_def)
  moreover have "stringifyErrors (Errors (example_result ! 6)) = []"
    by (simp add: example_result_def stringifyErrors_def EVpDiff_def EMinLength_def)
  moreover have "map_option (map (\<lambda>row. row ! 8)) (reportTable False example_result) =
     Some [Text ''Errors'', Text ''VpDiff, MinLength'', Text ''VpDiff'', Text [],
           Text ''MinLength'']"
    by (simp add: example_result_def reportTable_def createTable_def tableRow_def
          stringifyType_def typeStringifications_def stringifyErrors_def header_def
          EVpDiff_def EMinLength_def)
  ultimately show ?thesis using example_run by simp
qed

end
